theory Spec2Isabelle
  imports Main "HOL-Library.Word"
begin

section \<open>JavaScript strings\<close>

text \<open>
  A JavaScript string is a sequence of 16-bit code units; \<open>length\<close>, \<open>indexOf\<close>,
  \<open>substring\<close> and \<open>charCodeAt\<close> all count code units. An ASCII literal of the
  source is written \<open>ascii ''...''\<close>.
\<close>

type_synonym jschar = "16 word"
type_synonym jsstring = "jschar list"

definition ascii :: "string \<Rightarrow> jsstring" where
  "ascii s = map (\<lambda>c. of_char c) s"


text \<open>The code units that \<open>String.prototype.trim\<close> strips (WhiteSpace and LineTerminator).\<close>

definition isWhiteSpace :: "jschar \<Rightarrow> bool" where
  "isWhiteSpace c \<longleftrightarrow>
     c \<in> {0x09, 0x0A, 0x0B, 0x0C, 0x0D, 0x20, 0xA0, 0x1680, 0x2028, 0x2029, 0x202F, 0x205F,
          0x3000, 0xFEFF}
     \<or> (0x2000 \<le> c \<and> c \<le> 0x200A)"

definition trim :: "jsstring \<Rightarrow> jsstring" where
  "trim s = rev (dropWhile isWhiteSpace (rev (dropWhile isWhiteSpace s)))"

text \<open>\<open>s.startsWith(w)\<close>, used to build the searches below.\<close>

definition startsWith :: "'a list \<Rightarrow> 'a list \<Rightarrow> bool" where
  "startsWith s w \<longleftrightarrow> take (length w) s = w"

text \<open>
  \<open>s.split(sep)\<close>: the pieces between the successive leftmost, non-overlapping
  occurrences of \<open>sep\<close>; the empty separator splits into single code units.
\<close>

function splitOn :: "'a list \<Rightarrow> 'a list \<Rightarrow> 'a list list" where
  "splitOn sep [] = [[]]"
| "splitOn sep (c # cs) =
     (if sep \<noteq> [] \<and> startsWith (c # cs) sep
      then [] # splitOn sep (drop (length sep) (c # cs))
      else (case splitOn sep cs of
              [] \<Rightarrow> [[c]]
            | piece # pieces \<Rightarrow> (c # piece) # pieces))"
  by pat_completeness auto
termination
  by (relation "measure (\<lambda>(sep, s). length s)") (auto simp: neq_Nil_conv)

definition split :: "'a list \<Rightarrow> 'a list \<Rightarrow> 'a list list" where
  "split sep s = (if sep = [] then map (\<lambda>c. [c]) s else splitOn sep s)"

text \<open>\<open>xs.join(sep)\<close>\<close>

fun join :: "'a list \<Rightarrow> 'a list list \<Rightarrow> 'a list" where
  "join sep [] = []"
| "join sep [x] = x"
| "join sep (x # y # ys) = x @ sep @ join sep (y # ys)"

section \<open>Subtitle parser (subtitle-parser.js)\<close>

record SubtitleEntry =
  sub_start :: int
  sub_end :: int
  sub_text :: jsstring
















text \<open>
  \<open>findSubtitleAtTime\<close>: \<open>this.subtitles.find(...) || null\<close>. An entry is an
  object, hence truthy, so the result is the entry found, or null (\<open>None\<close>).
\<close>

definition covers :: "int \<Rightarrow> SubtitleEntry \<Rightarrow> bool" where
  "covers time subtitle \<longleftrightarrow> time \<ge> sub_start subtitle \<and> time \<le> sub_end subtitle"

definition findSubtitleAtTime :: "SubtitleEntry list \<Rightarrow> int \<Rightarrow> SubtitleEntry option" where
  "findSubtitleAtTime subtitles time = find (covers time) subtitles"





section \<open>Readings and the position aligner (video-player.js, enhanceWithKanjiPopups)\<close>

text \<open>
  \<open>s.indexOf(w, fromIndex)\<close>: \<open>fromIndex\<close> is clamped to \<open>[0, s.length]\<close>; the
  result is the least index from there on at which \<open>w\<close> occurs, or \<open>-1\<close>.
  \<open>search\<close> scans the suffix that starts at index \<open>k\<close>.
\<close>

fun search :: "'a list \<Rightarrow> 'a list \<Rightarrow> nat \<Rightarrow> int" where
  "search [] w k = (if w = [] then int k else - 1)"
| "search (c # cs) w k = (if startsWith (c # cs) w then int k else search cs w (Suc k))"

definition indexOf :: "'a list \<Rightarrow> 'a list \<Rightarrow> int \<Rightarrow> int" where
  "indexOf s w fromIndex =
     (let k = nat (min (max fromIndex 0) (int (length s))) in search (drop k s) w k)"

text \<open>\<open>s.includes(w)\<close>\<close>

definition includesStr :: "'a list \<Rightarrow> 'a list \<Rightarrow> bool" where
  "includesStr s w \<longleftrightarrow> indexOf s w 0 \<noteq> - 1"

text \<open>
  \<open>convertKatakanaToHiragana\<close>: \<open>None\<close> is a missing (undefined or null) argument;
  \<open>String.fromCharCode(match.charCodeAt(0) - 0x60)\<close> is subtraction on the code unit.
\<close>

definition isKatakana :: "jschar \<Rightarrow> bool" where
  "isKatakana c \<longleftrightarrow> 0x30A1 \<le> c \<and> c \<le> 0x30F6"

definition convertKatakanaToHiragana :: "jsstring option \<Rightarrow> jsstring" where
  "convertKatakanaToHiragana text =
     (case text of
        None \<Rightarrow> []
      | Some s \<Rightarrow> if s = [] then [] else map (\<lambda>c. if isKatakana c then c - 0x60 else c) s)"

text \<open>
  A token of the analyzer (\<open>surface_form\<close>, \<open>reading\<close>, \<open>pos\<close>; the reading may be
  missing), the word data built from it, and the word objects of \<open>kanjiWords\<close>
  (\<open>word\<close>, \<open>position\<close>, \<open>length\<close>, \<open>data\<close> with \<open>word\<close>, \<open>hiragana\<close>,
  \<open>meaning\<close>). A match record of the dictionary service has the fields of \<open>data\<close>,
  each possibly missing.
\<close>

record Token =
  tk_surface_form :: jsstring
  tk_reading :: "jsstring option"
  tk_pos :: jsstring

record SegmentedWord =
  sw_word :: jsstring
  sw_reading :: jsstring
  sw_pos :: jsstring

record WordData =
  d_word :: "jsstring option"
  d_hiragana :: "jsstring option"
  d_meaning :: "jsstring option"

record WordObj =
  wo_word :: jsstring
  wo_position :: int
  wo_length :: int
  wo_data :: "WordData option"

text \<open>The four parts of speech kept, as code units: noun, verb, adverb, adjective.\<close>

definition targetPos :: "jsstring list" where
  "targetPos = [[0x540D, 0x8A5E], [0x52D5, 0x8A5E], [0x526F, 0x8A5E], [0x5F62, 0x5BB9, 0x8A5E]]"

definition orEmpty :: "jsstring option \<Rightarrow> jsstring" where
  "orEmpty s = (case s of None \<Rightarrow> [] | Some r \<Rightarrow> r)"

definition segmentWords :: "Token list \<Rightarrow> SegmentedWord list" where
  "segmentWords tokens =
     map (\<lambda>token. \<lparr>sw_word = tk_surface_form token,
                    sw_reading = convertKatakanaToHiragana (Some (orEmpty (tk_reading token))),
                    sw_pos = tk_pos token\<rparr>)
       (filter (\<lambda>token. tk_pos token \<in> set targetPos) tokens)"

definition makeWordObj :: "SegmentedWord \<Rightarrow> int \<Rightarrow> WordObj" where
  "makeWordObj wordData position =
     \<lparr>wo_word = sw_word wordData,
      wo_position = position,
      wo_length = int (length (sw_word wordData)),
      wo_data = Some \<lparr>d_word = Some (sw_word wordData),
                       d_hiragana = Some (sw_reading wordData),
                       d_meaning = None\<rparr>\<rparr>"

text \<open>
  The loop \<open>for (const wordData of segmentedWords)\<close> with its two variables, the
  cursor \<open>textIndex\<close> and the list \<open>kanjiWords\<close>.
\<close>

fun alignWords :: "jsstring \<Rightarrow> SegmentedWord list \<Rightarrow> int \<Rightarrow> WordObj list \<Rightarrow> WordObj list" where
  "alignWords originalText [] textIndex kanjiWords = kanjiWords"
| "alignWords originalText (wordData # rest) textIndex kanjiWords =
     (if sw_word wordData = [] \<or> trim (sw_word wordData) = []
      then alignWords originalText rest textIndex kanjiWords
      else
        (let position = indexOf originalText (sw_word wordData) textIndex in
         if position = - 1 then
           (let posFromStart = indexOf originalText (sw_word wordData) 0 in
            if posFromStart = - 1 then alignWords originalText rest textIndex kanjiWords
            else alignWords originalText rest (posFromStart + int (length (sw_word wordData)))
                   (kanjiWords @ [makeWordObj wordData posFromStart]))
         else alignWords originalText rest (position + int (length (sw_word wordData)))
                (kanjiWords @ [makeWordObj wordData position])))"

text \<open>
  Where a word occurs in a text, and the first occurrence at or after an index: the terms
  in which the aligner is specified.
\<close>

definition occursAt :: "'a list \<Rightarrow> 'a list \<Rightarrow> nat \<Rightarrow> bool" where
  "occursAt s w p \<longleftrightarrow> p \<le> length s \<and> take (length w) (drop p s) = w"

definition firstFrom :: "'a list \<Rightarrow> 'a list \<Rightarrow> nat \<Rightarrow> nat \<Rightarrow> bool" where
  "firstFrom s w k p \<longleftrightarrow> k \<le> p \<and> occursAt s w p \<and> (\<forall>q. k \<le> q \<and> q < p \<longrightarrow> \<not> occursAt s w q)"

section \<open>Dictionary lookups (video-player.js lookupWholeWord, KanjiDictionary.getWordMeaning)\<close>

text \<open>
  The dictionary service is an external collaborator: a request is an endpoint and the
  word queried, and the answer to \<open>fetch\<close> is either a rejection (network error) or a
  response with its \<open>ok\<close> flag and a body. A malformed body is one on which
  \<open>response.json()\<close> rejects, or which parses to null, so that reading
  \<open>data.matches\<close> throws; any other body carries \<open>matches\<close> (missing, or a list of
  match records).
\<close>

datatype endpoint = Inflected | Direct | Partial

type_synonym request = "endpoint \<times> jsstring"

datatype body = Malformed | Json "WordData list option"

datatype fetch_result = NetworkError | Response bool body

type_synonym service = "request \<Rightarrow> fetch_result"

datatype exn = URIError | TypeError | SyntaxError

text \<open>
  \<open>encodeURIComponent\<close> throws a URIError on a lone surrogate; only that is modelled, the
  request being identified by the word itself.
\<close>

definition isHighSurrogate :: "jschar \<Rightarrow> bool" where
  "isHighSurrogate c \<longleftrightarrow> 0xD800 \<le> c \<and> c \<le> 0xDBFF"

definition isLowSurrogate :: "jschar \<Rightarrow> bool" where
  "isLowSurrogate c \<longleftrightarrow> 0xDC00 \<le> c \<and> c \<le> 0xDFFF"

fun wellFormed :: "jsstring \<Rightarrow> bool" where
  "wellFormed [] = True"
| "wellFormed [c] = (\<not> isHighSurrogate c \<and> \<not> isLowSurrogate c)"
| "wellFormed (c # d # ds) =
     (if isHighSurrogate c then isLowSurrogate d \<and> wellFormed ds
      else \<not> isLowSurrogate c \<and> wellFormed (d # ds))"

definition encodeURIComponent :: "jsstring \<Rightarrow> exn + jsstring" where
  "encodeURIComponent word = (if wellFormed word then Inr word else Inl URIError)"

text \<open>
  One tier's request: the URL is built, the request is issued and, if the response is ok,
  its body is parsed. The result is the exception thrown, or \<open>None\<close> for a response that
  is not ok, or the \<open>matches\<close> of the parsed body; with it the requests issued.
\<close>

definition fetchMatches ::
  "service \<Rightarrow> endpoint \<Rightarrow> jsstring \<Rightarrow> (exn + WordData list option option) \<times> request list" where
  "fetchMatches svc ep word =
     (case encodeURIComponent word of
        Inl e \<Rightarrow> (Inl e, [])
      | Inr q \<Rightarrow>
          (case svc (ep, q) of
             NetworkError \<Rightarrow> (Inl TypeError, [(ep, q)])
           | Response ok b \<Rightarrow>
               if \<not> ok then (Inr None, [(ep, q)])
               else (case b of
                       Malformed \<Rightarrow> (Inl SyntaxError, [(ep, q)])
                     | Json matches \<Rightarrow> (Inr (Some matches), [(ep, q)]))))"

text \<open>
  \<open>truthy\<close>: a string value that is present and not empty. \<open>hasMeaning\<close> is the test
  \<open>m.meaning && m.meaning.trim() !== ''\<close>.
\<close>

definition truthy :: "jsstring option \<Rightarrow> bool" where
  "truthy v \<longleftrightarrow> (case v of None \<Rightarrow> False | Some s \<Rightarrow> s \<noteq> [])"

definition hasMeaning :: "WordData \<Rightarrow> bool" where
  "hasMeaning m \<longleftrightarrow> truthy (d_meaning m) \<and> trim (orEmpty (d_meaning m)) \<noteq> []"

definition nonEmptyMatches :: "WordData list option \<Rightarrow> WordData list" where
  "nonEmptyMatches matches = (case matches of None \<Rightarrow> [] | Some ms \<Rightarrow> ms)"

text \<open>
  What one tier does to \<open>wordObj.data.meaning\<close>: it throws, or sets the meaning and
  returns from the function, or falls through to the next statement with the meaning as
  it then stands.
\<close>

datatype tier_result = Threw exn | Returned "jsstring option" | FellThrough "jsstring option"

text \<open>Lines 541-573: the inflected search.\<close>

definition inflectedTier :: "jsstring \<Rightarrow> jsstring option \<Rightarrow> exn + WordData list option option \<Rightarrow> tier_result" where
  "inflectedTier word meaning fetched =
     (case fetched of
        Inl e \<Rightarrow> Threw e
      | Inr None \<Rightarrow> FellThrough meaning
      | Inr (Some matches) \<Rightarrow>
          (case nonEmptyMatches matches of
             [] \<Rightarrow> FellThrough meaning
           | first # others \<Rightarrow>
               (case find (\<lambda>m. d_word m = Some word \<and> hasMeaning m) (first # others) of
                  Some exactMatchWithMeaning \<Rightarrow> Returned (d_meaning exactMatchWithMeaning)
                | None \<Rightarrow>
                    (case find hasMeaning (first # others) of
                       Some anyMatchWithMeaning \<Rightarrow> Returned (d_meaning anyMatchWithMeaning)
                     | None \<Rightarrow>
                         if truthy (d_meaning first) then FellThrough (d_meaning first)
                         else FellThrough meaning))))"

text \<open>Lines 576-592: the direct search.\<close>

definition directTier :: "jsstring \<Rightarrow> jsstring option \<Rightarrow> exn + WordData list option option \<Rightarrow> tier_result" where
  "directTier word meaning fetched =
     (case fetched of
        Inl e \<Rightarrow> Threw e
      | Inr None \<Rightarrow> FellThrough meaning
      | Inr (Some matches) \<Rightarrow>
          (case find hasMeaning (nonEmptyMatches matches) of
             Some matchWithMeaning \<Rightarrow> Returned (d_meaning matchWithMeaning)
           | None \<Rightarrow> FellThrough meaning))"

text \<open>Lines 595-622: the partial search.\<close>

definition partialTier :: "jsstring \<Rightarrow> jsstring option \<Rightarrow> exn + WordData list option option \<Rightarrow> tier_result" where
  "partialTier word meaning fetched =
     (case fetched of
        Inl e \<Rightarrow> Threw e
      | Inr None \<Rightarrow> FellThrough meaning
      | Inr (Some matches) \<Rightarrow>
          (case find (\<lambda>m. d_word m = Some word \<and> hasMeaning m) (nonEmptyMatches matches) of
             Some exactPartialMatch \<Rightarrow> Returned (d_meaning exactPartialMatch)
           | None \<Rightarrow>
               (case find hasMeaning (nonEmptyMatches matches) of
                  Some anyPartialMatchWithMeaning \<Rightarrow> Returned (d_meaning anyPartialMatchWithMeaning)
                | None \<Rightarrow> FellThrough meaning)))"

definition noDefinitionFound :: jsstring where
  "noDefinitionFound = ascii ''No definition found''"

definition errorFetchingMeaning :: jsstring where
  "errorFetchingMeaning = ascii ''Error fetching meaning''"

text \<open>
  The \<open>try\<close> block of \<open>lookupWholeWord\<close> (lines 539-627), from the meaning the word
  object has on entry: the statement that ends it and the requests issued, in order.
\<close>

definition lookupTiers :: "service \<Rightarrow> jsstring \<Rightarrow> jsstring option \<Rightarrow> tier_result \<times> request list" where
  "lookupTiers svc word meaning =
     (let (fetched1, calls1) = fetchMatches svc Inflected word in
      case inflectedTier word meaning fetched1 of
        Threw e \<Rightarrow> (Threw e, calls1)
      | Returned m \<Rightarrow> (Returned m, calls1)
      | FellThrough meaning1 \<Rightarrow>
          (let (fetched2, calls2) = fetchMatches svc Direct word in
           case directTier word meaning1 fetched2 of
             Threw e \<Rightarrow> (Threw e, calls1 @ calls2)
           | Returned m \<Rightarrow> (Returned m, calls1 @ calls2)
           | FellThrough meaning2 \<Rightarrow>
               (let (fetched3, calls3) = fetchMatches svc Partial word in
                case partialTier word meaning2 fetched3 of
                  Threw e \<Rightarrow> (Threw e, calls1 @ calls2 @ calls3)
                | Returned m \<Rightarrow> (Returned m, calls1 @ calls2 @ calls3)
                | FellThrough meaning3 \<Rightarrow>
                    (if \<not> truthy meaning3 \<or> trim (orEmpty meaning3) = []
                     then (FellThrough (Some noDefinitionFound), calls1 @ calls2 @ calls3)
                     else (FellThrough meaning3, calls1 @ calls2 @ calls3)))))"

text \<open>
  \<open>lookupWholeWord\<close> on a word object that carries \<open>data\<close>, as every object built by
  the aligner does: the \<open>catch\<close> clause turns an exception of the \<open>try\<close> block into
  the error gloss. The result is the data as updated and the requests issued.
\<close>

definition lookupWholeWord :: "service \<Rightarrow> jsstring \<Rightarrow> WordData \<Rightarrow> WordData \<times> request list" where
  "lookupWholeWord svc word wordData =
     (case lookupTiers svc word (d_meaning wordData) of
        (Threw e, calls) \<Rightarrow> (wordData\<lparr>d_meaning := Some errorFetchingMeaning\<rparr>, calls)
      | (Returned m, calls) \<Rightarrow> (wordData\<lparr>d_meaning := m\<rparr>, calls)
      | (FellThrough m, calls) \<Rightarrow> (wordData\<lparr>d_meaning := m\<rparr>, calls))"

text \<open>
  The other \<open>lookupWholeWord\<close> of video-player.js (lines 1297-1367): tier 1 takes the
  first match whose word is the word queried if its meaning is truthy, else the first
  match if its meaning is truthy; tiers 2 and 3 take the first match.
\<close>

definition inflectedTier2 :: "jsstring \<Rightarrow> jsstring option \<Rightarrow> exn + WordData list option option \<Rightarrow> tier_result" where
  "inflectedTier2 word meaning fetched =
     (case fetched of
        Inl e \<Rightarrow> Threw e
      | Inr None \<Rightarrow> FellThrough meaning
      | Inr (Some matches) \<Rightarrow>
          (case nonEmptyMatches matches of
             [] \<Rightarrow> FellThrough meaning
           | first # others \<Rightarrow>
               (case find (\<lambda>m. d_word m = Some word) (first # others) of
                  Some exactMatch \<Rightarrow>
                    if truthy (d_meaning exactMatch) then Returned (d_meaning exactMatch)
                    else if truthy (d_meaning first) then Returned (d_meaning first)
                    else FellThrough meaning
                | None \<Rightarrow>
                    if truthy (d_meaning first) then Returned (d_meaning first)
                    else FellThrough meaning)))"

definition firstMatchTier2 :: "jsstring option \<Rightarrow> exn + WordData list option option \<Rightarrow> tier_result" where
  "firstMatchTier2 meaning fetched =
     (case fetched of
        Inl e \<Rightarrow> Threw e
      | Inr None \<Rightarrow> FellThrough meaning
      | Inr (Some matches) \<Rightarrow>
          (case nonEmptyMatches matches of
             [] \<Rightarrow> FellThrough meaning
           | first # others \<Rightarrow>
               if truthy (d_meaning first) then Returned (d_meaning first)
               else FellThrough meaning))"

definition lookupTiers2 :: "service \<Rightarrow> jsstring \<Rightarrow> jsstring option \<Rightarrow> tier_result \<times> request list" where
  "lookupTiers2 svc word meaning =
     (let (fetched1, calls1) = fetchMatches svc Inflected word in
      case inflectedTier2 word meaning fetched1 of
        Threw e \<Rightarrow> (Threw e, calls1)
      | Returned m \<Rightarrow> (Returned m, calls1)
      | FellThrough meaning1 \<Rightarrow>
          (let (fetched2, calls2) = fetchMatches svc Direct word in
           case firstMatchTier2 meaning1 fetched2 of
             Threw e \<Rightarrow> (Threw e, calls1 @ calls2)
           | Returned m \<Rightarrow> (Returned m, calls1 @ calls2)
           | FellThrough meaning2 \<Rightarrow>
               (let (fetched3, calls3) = fetchMatches svc Partial word in
                case firstMatchTier2 meaning2 fetched3 of
                  Threw e \<Rightarrow> (Threw e, calls1 @ calls2 @ calls3)
                | Returned m \<Rightarrow> (Returned m, calls1 @ calls2 @ calls3)
                | FellThrough meaning3 \<Rightarrow>
                    (if \<not> truthy meaning3
                     then (FellThrough (Some noDefinitionFound), calls1 @ calls2 @ calls3)
                     else (FellThrough meaning3, calls1 @ calls2 @ calls3)))))"

definition lookupWholeWord2 :: "service \<Rightarrow> jsstring \<Rightarrow> WordData \<Rightarrow> WordData \<times> request list" where
  "lookupWholeWord2 svc word wordData =
     (case lookupTiers2 svc word (d_meaning wordData) of
        (Threw e, calls) \<Rightarrow> (wordData\<lparr>d_meaning := Some errorFetchingMeaning\<rparr>, calls)
      | (Returned m, calls) \<Rightarrow> (wordData\<lparr>d_meaning := m\<rparr>, calls)
      | (FellThrough m, calls) \<Rightarrow> (wordData\<lparr>d_meaning := m\<rparr>, calls))"

text \<open>
  \<open>KanjiDictionary.getWordMeaning\<close>: the cache is a \<open>Map\<close> from word to a match or
  null, so a key can be present with the value null (\<open>Some None\<close>). The result is the
  value returned, the cache afterwards and the requests issued.
\<close>

type_synonym cache = "jsstring \<rightharpoonup> WordData option"

definition getWordMeaning ::
  "service \<Rightarrow> cache \<Rightarrow> jsstring \<Rightarrow> WordData option \<times> cache \<times> request list" where
  "getWordMeaning svc cache word =
     (case cache word of
        Some cached \<Rightarrow> (cached, cache, [])
      | None \<Rightarrow>
          (case fetchMatches svc Direct word of
             (Inl e, calls) \<Rightarrow> (None, cache, calls)
           | (Inr None, calls) \<Rightarrow> (None, cache, calls)
           | (Inr (Some matches), calls) \<Rightarrow>
               (case nonEmptyMatches matches of
                  first # others \<Rightarrow> (Some first, cache(word \<mapsto> Some first), calls)
                | [] \<Rightarrow> (None, cache(word \<mapsto> None), calls))))"

text \<open>
  What a tier's answer amounts to, read off the service: a failure (the request is
  rejected, or the body of an ok response cannot be parsed), a usable answer (an ok
  response with a match that has a meaning), or nothing (any other response).
\<close>

definition tierFails :: "service \<Rightarrow> endpoint \<Rightarrow> jsstring \<Rightarrow> bool" where
  "tierFails svc ep word \<longleftrightarrow>
     (case svc (ep, word) of
        NetworkError \<Rightarrow> True
      | Response ok b \<Rightarrow> ok \<and> b = Malformed)"

definition tierUsable :: "service \<Rightarrow> endpoint \<Rightarrow> jsstring \<Rightarrow> bool" where
  "tierUsable svc ep word \<longleftrightarrow>
     (case svc (ep, word) of
        NetworkError \<Rightarrow> False
      | Response ok b \<Rightarrow>
          ok \<and> (case b of Malformed \<Rightarrow> False
                | Json matches \<Rightarrow> list_ex hasMeaning (nonEmptyMatches matches)))"

definition tierNothing :: "service \<Rightarrow> endpoint \<Rightarrow> jsstring \<Rightarrow> bool" where
  "tierNothing svc ep word \<longleftrightarrow> \<not> tierFails svc ep word \<and> \<not> tierUsable svc ep word"

text \<open>Whether tier 1 returns a match for exactly the word queried, with a meaning.\<close>

definition exactUsable :: "service \<Rightarrow> jsstring \<Rightarrow> bool" where
  "exactUsable svc word \<longleftrightarrow>
     (case svc (Inflected, word) of
        NetworkError \<Rightarrow> False
      | Response ok b \<Rightarrow>
          ok \<and> (case b of Malformed \<Rightarrow> False
                | Json matches \<Rightarrow>
                    list_ex (\<lambda>m. d_word m = Some word \<and> hasMeaning m) (nonEmptyMatches matches)))"

text \<open>
  Concrete words and services for the examples: the word U+6771 U+4EAC, a fresh data
  record as the aligner builds it, a service whose inflected search is down while the
  direct search would answer, a service that answers every request with a response that
  is not ok, a service whose inflected search answers with one exact match, and one whose
  inflected search answers with two records for the word, the first without a meaning.
\<close>

definition wordTokyo :: jsstring where
  "wordTokyo = [0x6771, 0x4EAC]"

definition freshData :: "jsstring \<Rightarrow> WordData" where
  "freshData word = \<lparr>d_word = Some word, d_hiragana = Some [], d_meaning = None\<rparr>"

definition matchTokyo :: WordData where
  "matchTokyo = \<lparr>d_word = Some wordTokyo, d_hiragana = None, d_meaning = Some (ascii ''Tokyo'')\<rparr>"

definition svcInflectedDown :: service where
  "svcInflectedDown req =
     (case fst req of
        Inflected \<Rightarrow> NetworkError
      | Direct \<Rightarrow> Response True (Json (Some [matchTokyo]))
      | Partial \<Rightarrow> Response True (Json (Some [matchTokyo])))"

definition svcNotOk :: service where
  "svcNotOk req = Response False Malformed"

definition svcExact :: service where
  "svcExact req =
     (case fst req of
        Inflected \<Rightarrow> Response True (Json (Some [matchTokyo]))
      | Direct \<Rightarrow> Response True (Json (Some [matchTokyo]))
      | Partial \<Rightarrow> Response True (Json (Some [])))"

definition svcDuplicateExact :: service where
  "svcDuplicateExact req =
     (case fst req of
        Inflected \<Rightarrow>
          Response True (Json (Some [\<lparr>d_word = Some wordTokyo, d_hiragana = None, d_meaning = Some []\<rparr>,
                                     matchTokyo]))
      | Direct \<Rightarrow> Response True (Json (Some []))
      | Partial \<Rightarrow> Response True (Json (Some [])))"

section \<open>The annotation compositor (video-player.js)\<close>

text \<open>
  The markup tree: a text node, or an element with its tag (lower case), attributes and
  children. The functions below work on the list of children of the temporary \<open>div\<close>.
\<close>

datatype MarkupNode = Text jsstring | Element string "(string \<times> jsstring) list" "MarkupNode list"

text \<open>
  \<open>s.substring(a, b)\<close> (both indices clamped to the string and swapped when out of
  order) and \<open>s.substr(start, n)\<close>.
\<close>

definition substring :: "'a list \<Rightarrow> int \<Rightarrow> int \<Rightarrow> 'a list" where
  "substring s a b =
     (let a' = min (max a 0) (int (length s));
          b' = min (max b 0) (int (length s));
          lo = min a' b';
          hi = max a' b'
      in take (nat (hi - lo)) (drop (nat lo) s))"

definition substr :: "'a list \<Rightarrow> int \<Rightarrow> int \<Rightarrow> 'a list" where
  "substr s start n =
     (let st = (if start < 0 then max (int (length s) + start) 0 else min start (int (length s)))
      in take (nat n) (drop (nat st) s))"

text \<open>
  Setting \<open>textContent\<close> leaves one text child, or none for the empty string. The popup
  of a word joins its reading and its meaning, those that are present and not empty.
\<close>

definition textChildren :: "jsstring \<Rightarrow> MarkupNode list" where
  "textChildren s = (if s = [] then [] else [Text s])"

definition popupContent :: "WordData option \<Rightarrow> jsstring" where
  "popupContent wordData =
     (case wordData of
        None \<Rightarrow> ascii ''No meaning available''
      | Some d \<Rightarrow>
          join (ascii '' - '')
            ((if truthy (d_hiragana d) then [orEmpty (d_hiragana d)] else [])
             @ (if truthy (d_meaning d) then [orEmpty (d_meaning d)] else [])))"

definition popupSpan :: "WordData option \<Rightarrow> MarkupNode" where
  "popupSpan wordData =
     Element ''span'' [(''class'', ascii ''kanji-popup'')] (textChildren (popupContent wordData))"

definition wordSpan :: "jsstring \<Rightarrow> WordData option \<Rightarrow> MarkupNode" where
  "wordSpan wordText wordData =
     Element ''span'' [(''class'', ascii ''kanji-word'')] (textChildren wordText @ [popupSpan wordData])"

text \<open>
  \<open>Array.prototype.sort\<close> with a comparator is stable: insertion from the right,
  an element going before the first one it does not compare greater than.
\<close>

fun insertBy :: "('a \<Rightarrow> 'a \<Rightarrow> int) \<Rightarrow> 'a \<Rightarrow> 'a list \<Rightarrow> 'a list" where
  "insertBy cmp x [] = [x]"
| "insertBy cmp x (y # ys) = (if cmp x y \<le> 0 then x # y # ys else y # insertBy cmp x ys)"

definition sortBy :: "('a \<Rightarrow> 'a \<Rightarrow> int) \<Rightarrow> 'a list \<Rightarrow> 'a list" where
  "sortBy cmp xs = foldr (insertBy cmp) xs []"

subsection \<open>applyHighlighting (lines 326-454)\<close>

text \<open>\<open>collectTextNodes\<close>: the values of the text nodes kept, in document order.\<close>

fun collectTextNodes :: "MarkupNode \<Rightarrow> jsstring list" where
  "collectTextNodes (Text s) = (if s \<noteq> [] \<and> trim s \<noteq> [] then [s] else [])"
| "collectTextNodes (Element tag attrs children) =
     (if tag = ''rt'' \<or> tag = ''rp'' then [] else concat (map collectTextNodes children))"

text \<open>
  The first loop: the entry of \<open>textNodePositions\<close> for each collected node (\<open>None\<close>
  when the node's text is not found from \<open>currentTextPosition\<close> on).
\<close>

fun textNodePositions :: "jsstring \<Rightarrow> jsstring list \<Rightarrow> int \<Rightarrow> int option list" where
  "textNodePositions originalText [] currentTextPosition = []"
| "textNodePositions originalText (t # ts) currentTextPosition =
     (let position = indexOf originalText t currentTextPosition in
      if position \<noteq> - 1
      then Some position # textNodePositions originalText ts (position + int (length t))
      else None # textNodePositions originalText ts currentTextPosition)"

definition overlapsNode :: "int \<Rightarrow> int \<Rightarrow> WordObj \<Rightarrow> bool" where
  "overlapsNode nodePosition nodeEndPosition w \<longleftrightarrow>
     (let wordEndPosition = wo_position w + wo_length w in
      (wo_position w \<ge> nodePosition \<and> wo_position w < nodeEndPosition)
      \<or> (wo_position w < nodePosition \<and> wordEndPosition > nodePosition))"

text \<open>The loop over \<open>relevantWords\<close> with its variables \<open>fragments\<close> and \<open>lastIndex\<close>.\<close>

fun highlightWords ::
  "jsstring \<Rightarrow> int \<Rightarrow> WordObj list \<Rightarrow> MarkupNode list \<Rightarrow> int \<Rightarrow> MarkupNode list \<times> int" where
  "highlightWords t nodePosition [] fragments lastIndex = (fragments, lastIndex)"
| "highlightWords t nodePosition (wordObj # rest) fragments lastIndex =
     (let wordStartInNode = max 0 (wo_position wordObj - nodePosition) in
      if wordStartInNode \<ge> int (length t)
      then highlightWords t nodePosition rest fragments lastIndex
      else
        (let availableLength = int (length t) - wordStartInNode;
             wordLengthInNode = min (wo_length wordObj) availableLength in
         if wordStartInNode < 0 \<or> wordLengthInNode \<le> 0
         then highlightWords t nodePosition rest fragments lastIndex
         else
           highlightWords t nodePosition rest
             (fragments
              @ (if wordStartInNode > lastIndex then [Text (substring t lastIndex wordStartInNode)]
                 else [])
              @ [wordSpan (substr t wordStartInNode wordLengthInNode) (wo_data wordObj)])
             (wordStartInNode + wordLengthInNode)))"

text \<open>
  The body of the second loop for one collected node: the fragments that replace it, or
  \<open>None\<close> when the node is left as it is.
\<close>

definition highlightLeaf :: "WordObj list \<Rightarrow> jsstring \<Rightarrow> int option \<Rightarrow> MarkupNode list option" where
  "highlightLeaf kanjiWords t position =
     (let nodePosition = (case position of None \<Rightarrow> 0 | Some p \<Rightarrow> p);
          nodeEndPosition = nodePosition + int (length t);
          relevantWords =
            sortBy (\<lambda>a b. (wo_position a - nodePosition) - (wo_position b - nodePosition))
              (filter (overlapsNode nodePosition nodeEndPosition) kanjiWords)
      in if relevantWords = [] then None
         else
           (let (fragments, lastIndex) = highlightWords t nodePosition relevantWords [] 0;
                fragments' =
                  (if lastIndex < int (length t)
                   then fragments @ [Text (substring t lastIndex (int (length t)))]
                   else fragments)
            in if fragments' \<noteq> [] \<and> lastIndex > 0 then Some fragments' else None))"

text \<open>
  \<open>parent.replaceChild(fragment, textNode)\<close> for every collected node: the tree is
  walked in the order of \<open>collectTextNodes\<close>, each kept text node taking the next
  replacement.
\<close>

fun replaceNode ::
  "MarkupNode \<Rightarrow> MarkupNode list option list \<Rightarrow> MarkupNode list \<times> MarkupNode list option list"
and replaceNodes ::
  "MarkupNode list \<Rightarrow> MarkupNode list option list \<Rightarrow> MarkupNode list \<times> MarkupNode list option list"
where
  "replaceNode (Text s) rs =
     (if s \<noteq> [] \<and> trim s \<noteq> []
      then (case rs of
              [] \<Rightarrow> ([Text s], [])
            | r # rs' \<Rightarrow> ((case r of None \<Rightarrow> [Text s] | Some fragments \<Rightarrow> fragments), rs'))
      else ([Text s], rs))"
| "replaceNode (Element tag attrs children) rs =
     (if tag = ''rt'' \<or> tag = ''rp'' then ([Element tag attrs children], rs)
      else (case replaceNodes children rs of
              (children', rs') \<Rightarrow> ([Element tag attrs children'], rs')))"
| "replaceNodes [] rs = ([], rs)"
| "replaceNodes (n # ns) rs =
     (case replaceNode n rs of
        (a, rs1) \<Rightarrow> (case replaceNodes ns rs1 of (b, rs2) \<Rightarrow> (a @ b, rs2)))"

text \<open>
  \<open>applyHighlighting\<close> on the children of the temporary \<open>div\<close>: the children
  afterwards, which \<open>enhanceWithKanjiPopups\<close> then shows.
\<close>

definition applyHighlighting :: "MarkupNode list \<Rightarrow> WordObj list \<Rightarrow> jsstring \<Rightarrow> MarkupNode list" where
  "applyHighlighting children kanjiWords originalText =
     (let textNodes = concat (map collectTextNodes children);
          positions = textNodePositions originalText textNodes 0;
          replacements = map2 (highlightLeaf kanjiWords) textNodes positions
      in fst (replaceNodes children replacements))"

subsection \<open>enhanceWithKanjiPopups (lines 186-304)\<close>

text \<open>
  The loop that looks every word up. A word object without \<open>data\<close> would make
  \<open>lookupWholeWord\<close> and both handlers throw a TypeError, which ends
  \<open>enhanceWithKanjiPopups\<close> in its outer \<open>catch\<close>: that is \<open>None\<close>.
\<close>

fun lookupAll :: "service \<Rightarrow> WordObj list \<Rightarrow> WordObj list option" where
  "lookupAll svc [] = Some []"
| "lookupAll svc (wordObj # rest) =
     (case wo_data wordObj of
        None \<Rightarrow> None
      | Some d \<Rightarrow>
          (case lookupAll svc rest of
             None \<Rightarrow> None
           | Some rest' \<Rightarrow>
               Some (wordObj\<lparr>wo_data := Some (fst (lookupWholeWord svc (wo_word wordObj) d))\<rparr> # rest')))"

definition byPositionThenLonger :: "WordObj \<Rightarrow> WordObj \<Rightarrow> int" where
  "byPositionThenLonger a b =
     (if wo_position a \<noteq> wo_position b then wo_position a - wo_position b
      else wo_length b - wo_length a)"

text \<open>
  \<open>enhanceWithKanjiPopups\<close> as a function of what it receives: the analyzer's tokens
  (\<open>None\<close> when there is no analyzer or it throws), the dictionary service, the markup the
  converter returns for the text, the text, and the content of the display. The result is
  the content of the display afterwards.
\<close>

definition enhanceWithKanjiPopups ::
  "Token list option \<Rightarrow> service \<Rightarrow> MarkupNode list \<Rightarrow> jsstring \<Rightarrow> MarkupNode list \<Rightarrow> MarkupNode list" where
  "enhanceWithKanjiPopups analysis svc formatted originalText display =
     (let segmentedWords = (case analysis of None \<Rightarrow> [] | Some tokens \<Rightarrow> segmentWords tokens) in
      case lookupAll svc (alignWords originalText segmentedWords 0 []) of
        None \<Rightarrow> display
      | Some kanjiWords \<Rightarrow>
          if kanjiWords = [] then display
          else applyHighlighting formatted (sortBy byPositionThenLonger kanjiWords) originalText)"

subsection \<open>processNode (lines 1002-1239)\<close>

fun textContent :: "MarkupNode \<Rightarrow> jsstring" where
  "textContent (Text s) = s"
| "textContent (Element tag attrs children) = concat (map textContent children)"

definition getRubyBase :: "MarkupNode \<Rightarrow> jsstring" where
  "getRubyBase rubyElement =
     (case rubyElement of
        Text s \<Rightarrow> []
      | Element tag attrs children \<Rightarrow>
          trim (filter (\<lambda>c. c \<noteq> 0x28 \<and> c \<noteq> 0x29)
            (concat (map (\<lambda>child. case child of
                             Text s \<Rightarrow> s
                           | Element childTag _ _ \<Rightarrow>
                               if childTag = ''rt'' \<or> childTag = ''rp'' then [] else textContent child)
                       children))))"

definition matchesRuby :: "jsstring \<Rightarrow> WordObj \<Rightarrow> bool" where
  "matchesRuby rubyBase kw \<longleftrightarrow>
     rubyBase = wo_word kw \<or> includesStr rubyBase (wo_word kw) \<or> includesStr (wo_word kw) rubyBase"

definition isRangeProcessed :: "int \<Rightarrow> int \<Rightarrow> int set \<Rightarrow> bool" where
  "isRangeProcessed start end' processedIndexes \<longleftrightarrow> list_ex (\<lambda>i. i \<in> processedIndexes) [start..end' - 1]"

definition markRangeProcessed :: "int \<Rightarrow> int \<Rightarrow> int set \<Rightarrow> int set" where
  "markRangeProcessed start end' processedIndexes = processedIndexes \<union> set [start..end' - 1]"

definition byFirstMatchThenLonger :: "jsstring \<Rightarrow> WordObj \<Rightarrow> WordObj \<Rightarrow> int" where
  "byFirstMatchThenLonger t a b =
     (let posA = indexOf t (wo_word a) 0;
          posB = indexOf t (wo_word b) 0
      in if posA \<noteq> posB then posA - posB
         else int (length (wo_word b)) - int (length (wo_word a)))"

text \<open>
  The loop over \<open>relevantWords\<close> of a text node, with \<open>lastIndex\<close>, the set
  \<open>processedIndexes\<close> and the nodes appended to the fragment so far.
\<close>

fun wrapWords ::
  "jsstring \<Rightarrow> WordObj list \<Rightarrow> MarkupNode list \<Rightarrow> int \<Rightarrow> int set \<Rightarrow> MarkupNode list \<times> int" where
  "wrapWords t [] fragments lastIndex processedIndexes = (fragments, lastIndex)"
| "wrapWords t (w # rest) fragments lastIndex processedIndexes =
     (let position = indexOf t (wo_word w) lastIndex in
      if position = - 1
         \<or> isRangeProcessed position (position + int (length (wo_word w))) processedIndexes
      then wrapWords t rest fragments lastIndex processedIndexes
      else
        wrapWords t rest
          (fragments
           @ (if position > lastIndex then [Text (substring t lastIndex position)] else [])
           @ [wordSpan (wo_word w) (wo_data w)])
          (position + int (length (wo_word w)))
          (markRangeProcessed position (position + int (length (wo_word w))) processedIndexes))"

text \<open>\<open>processNode\<close>: the nodes it appends to the fragment for one node of the tree.\<close>

fun processNode :: "MarkupNode \<Rightarrow> WordObj list \<Rightarrow> MarkupNode list" where
  "processNode (Text t) kanjiWords =
     (if t = [] \<or> trim t = [] then [Text t]
      else
        (let relevantWords =
               sortBy (byFirstMatchThenLonger t) (filter (\<lambda>kw. includesStr t (wo_word kw)) kanjiWords)
         in if relevantWords = [] then [Text t]
            else
              (case wrapWords t relevantWords [] 0 {} of
                 (fragments, lastIndex) \<Rightarrow>
                   if lastIndex < int (length t)
                   then fragments @ [Text (substring t lastIndex (int (length t)))]
                   else fragments)))"
| "processNode (Element tag attrs children) kanjiWords =
     (if tag = ''rt'' then [Element tag attrs children]
      else if tag = ''ruby'' then
        (case find (matchesRuby (getRubyBase (Element tag attrs children))) kanjiWords of
           Some matchingKanjiWord \<Rightarrow>
             [Element ''span'' [(''class'', ascii ''kanji-word'')]
                [popupSpan (wo_data matchingKanjiWord), Element tag attrs children]]
         | None \<Rightarrow> [Element tag attrs children])
      else [Element tag attrs (concat (map (\<lambda>child. processNode child kanjiWords) children))])"

text \<open>
  The end of the other \<open>enhanceWithKanjiPopups\<close> (lines 945-963), from the list
  \<open>allWords\<close> and the content of the display: nothing is done without words;
  otherwise the words are sorted by position and the temporary \<open>div\<close> that holds
  the content is processed, the result replacing the content.
\<close>

definition processTextNodesForKanji :: "MarkupNode \<Rightarrow> WordObj list \<Rightarrow> MarkupNode list" where
  "processTextNodesForKanji node kanjiWords = processNode node kanjiWords"

definition showAllWords :: "WordObj list \<Rightarrow> MarkupNode list \<Rightarrow> MarkupNode list" where
  "showAllWords allWords display =
     (if allWords = [] then display
      else processTextNodesForKanji (Element ''div'' [] display)
             (sortBy (\<lambda>a b. wo_position a - wo_position b) allWords))"

subsection \<open>The text a tree shows\<close>

text \<open>
  The subtitle text carried by a tree: the text nodes in document order, leaving out the
  reading sub-nodes (\<open>rt\<close>, \<open>rp\<close>) and the popup payloads, and looking through every
  other element, highlight wrappers included.
\<close>

definition isPopup :: "(string \<times> jsstring) list \<Rightarrow> bool" where
  "isPopup attrs \<longleftrightarrow> map_of attrs ''class'' = Some (ascii ''kanji-popup'')"

fun baseText :: "MarkupNode \<Rightarrow> jsstring" where
  "baseText (Text s) = s"
| "baseText (Element tag attrs children) =
     (if tag = ''rt'' \<or> tag = ''rp'' \<or> isPopup attrs then [] else concat (map baseText children))"

text \<open>
  Two subtitles for the examples. The first is U+6771 U+4EAC U+90FD, for which the
  analyzer returns the nouns U+6771 U+4EAC U+90FD and U+6771 U+4EAC. The second is
  U+98DF U+3079 U+308B U+3082 U+306E, a verb of three units followed by a noun of two; the
  converter puts the reading on the first unit and leaves the other four in one text node.
\<close>

definition noun :: jsstring where "noun = [0x540D, 0x8A5E]"
definition verb :: jsstring where "verb = [0x52D5, 0x8A5E]"

definition textTokyoTo :: jsstring where
  "textTokyoTo = [0x6771, 0x4EAC, 0x90FD]"

definition tokensTokyoTo :: "Token list" where
  "tokensTokyoTo =
     [\<lparr>tk_surface_form = [0x6771, 0x4EAC, 0x90FD], tk_reading = None, tk_pos = noun\<rparr>,
      \<lparr>tk_surface_form = [0x6771, 0x4EAC], tk_reading = None, tk_pos = noun\<rparr>]"

definition textTaberu :: jsstring where
  "textTaberu = [0x98DF, 0x3079, 0x308B, 0x3082, 0x306E]"

definition tokensTaberu :: "Token list" where
  "tokensTaberu =
     [\<lparr>tk_surface_form = [0x98DF, 0x3079, 0x308B], tk_reading = None, tk_pos = verb\<rparr>,
      \<lparr>tk_surface_form = [0x3082, 0x306E], tk_reading = None, tk_pos = noun\<rparr>]"

definition rubyTaberu :: "MarkupNode list" where
  "rubyTaberu =
     [Element ''ruby'' []
        [Text [0x98DF], Element ''rp'' [] [Text (ascii ''('')], Element ''rt'' [] [Text [0x305F]],
         Element ''rp'' [] [Text (ascii '')'')]],
      Text [0x3079, 0x308B, 0x3082, 0x306E]]"

definition rubyTokyoTo :: "MarkupNode list" where
  "rubyTokyoTo =
     [Element ''ruby'' []
        [Text [0x6771, 0x4EAC, 0x90FD], Element ''rp'' [] [Text (ascii ''('')],
         Element ''rt'' [] [Text [0x3068, 0x3046, 0x304D, 0x3087, 0x3046, 0x3068]],
         Element ''rp'' [] [Text (ascii '')'')]]]"

text \<open>The data of a word for which the service had nothing.\<close>

definition unresolvedData :: "jsstring \<Rightarrow> WordData option" where
  "unresolvedData w = Some \<lparr>d_word = Some w, d_hiragana = Some [], d_meaning = Some noDefinitionFound\<rparr>"

text \<open>A token the part-of-speech filter drops: a particle (U+52A9 U+8A5E).\<close>

definition tokensParticle :: "Token list" where
  "tokensParticle = [\<lparr>tk_surface_form = [0x306B], tk_reading = None, tk_pos = [0x52A9, 0x8A5E]\<rparr>]"

section \<open>Properties of the subtitle parser\<close>

























section \<open>Properties of the timeline lookup\<close>

text \<open>
  C1. For every timeline, sorted or not, and every time \<open>t\<close>, the lookup returns the
  entry at the least index whose interval \<open>[start, end]\<close> contains \<open>t\<close>, and null
  exactly when no entry's interval contains \<open>t\<close>.
\<close>

theorem findSubtitleAtTime_first_in_order:
  "(findSubtitleAtTime subtitles t = None \<longleftrightarrow>
      (\<forall>e \<in> set subtitles. \<not> (sub_start e \<le> t \<and> t \<le> sub_end e)))
   \<and> (findSubtitleAtTime subtitles t = Some e \<longleftrightarrow>
      (\<exists>i < length subtitles. subtitles ! i = e
         \<and> sub_start e \<le> t \<and> t \<le> sub_end e
         \<and> (\<forall>j < i. \<not> (sub_start (subtitles ! j) \<le> t \<and> t \<le> sub_end (subtitles ! j)))))"
proof
  show "findSubtitleAtTime subtitles t = None \<longleftrightarrow>
      (\<forall>e \<in> set subtitles. \<not> (sub_start e \<le> t \<and> t \<le> sub_end e))"
    by (auto simp: findSubtitleAtTime_def covers_def find_None_iff)
  show "findSubtitleAtTime subtitles t = Some e \<longleftrightarrow>
      (\<exists>i < length subtitles. subtitles ! i = e
         \<and> sub_start e \<le> t \<and> t \<le> sub_end e
         \<and> (\<forall>j < i. \<not> (sub_start (subtitles ! j) \<le> t \<and> t \<le> sub_end (subtitles ! j))))"
    unfolding findSubtitleAtTime_def covers_def find_Some_iff by auto
qed

theorem findSubtitleAtTime_first_in_order_witness:
  "findSubtitleAtTime
     [\<lparr>sub_start = 5000, sub_end = 9000, sub_text = ascii ''b''\<rparr>,
      \<lparr>sub_start = 1000, sub_end = 6000, sub_text = ascii ''a''\<rparr>] 5500
   = Some \<lparr>sub_start = 5000, sub_end = 9000, sub_text = ascii ''b''\<rparr>
   \<and> findSubtitleAtTime
     [\<lparr>sub_start = 5000, sub_end = 9000, sub_text = ascii ''b''\<rparr>,
      \<lparr>sub_start = 1000, sub_end = 6000, sub_text = ascii ''a''\<rparr>] 9001 = None"
proof -
  let ?subs = "[\<lparr>sub_start = 5000, sub_end = 9000, sub_text = ascii ''b''\<rparr>,
      \<lparr>sub_start = 1000, sub_end = 6000, sub_text = ascii ''a''\<rparr>]"
  have "\<exists>i < length ?subs. ?subs ! i = ?subs ! 0
         \<and> sub_start (?subs ! 0) \<le> 5500 \<and> 5500 \<le> sub_end (?subs ! 0)
         \<and> (\<forall>j < i. \<not> (sub_start (?subs ! j) \<le> 5500 \<and> 5500 \<le> sub_end (?subs ! j)))"
    by (rule exI [of _ 0]) simp
  then have a: "findSubtitleAtTime ?subs 5500 = Some (?subs ! 0)"
    using findSubtitleAtTime_first_in_order [of ?subs 5500 "?subs ! 0"] by blast
  have "\<forall>e \<in> set ?subs. \<not> (sub_start e \<le> 9001 \<and> 9001 \<le> sub_end e)"
    by simp
  then have b: "findSubtitleAtTime ?subs 9001 = None"
    using findSubtitleAtTime_first_in_order [of ?subs 9001] by blast
  from a b show ?thesis by simp
qed

section \<open>Properties of the position aligner\<close>

lemma search_none:
  "(\<forall>j \<le> length s. \<not> startsWith (drop j s) w) \<Longrightarrow> search s w k = - 1"
proof (induction s arbitrary: k)
  case Nil
  then show ?case by (auto simp: startsWith_def)
next
  case (Cons c cs)
  from Cons.prems have 0: "\<not> startsWith (c # cs) w" by (metis drop0 le0)
  have "\<forall>j \<le> length cs. \<not> startsWith (drop j cs) w"
  proof (intro allI impI)
    fix j assume "j \<le> length cs"
    then have "Suc j \<le> length (c # cs)" by simp
    with Cons.prems have "\<not> startsWith (drop (Suc j) (c # cs)) w" by blast
    then show "\<not> startsWith (drop j cs) w" by simp
  qed
  with Cons.IH 0 show ?case by simp
qed

lemma search_found:
  "j \<le> length s \<Longrightarrow> startsWith (drop j s) w \<Longrightarrow> (\<forall>i < j. \<not> startsWith (drop i s) w)
     \<Longrightarrow> search s w k = int (k + j)"
proof (induction s arbitrary: j k)
  case Nil
  then show ?case by (auto simp: startsWith_def)
next
  case (Cons c cs)
  show ?case
  proof (cases j)
    case 0
    with Cons.prems show ?thesis by simp
  next
    case (Suc j')
    with Cons.prems have 0: "\<not> startsWith (c # cs) w" by (metis drop0 zero_less_Suc)
    have "\<forall>i < j'. \<not> startsWith (drop i cs) w"
    proof (intro allI impI)
      fix i assume "i < j'"
      then have "Suc i < j" using Suc by simp
      with Cons.prems have "\<not> startsWith (drop (Suc i) (c # cs)) w" by blast
      then show "\<not> startsWith (drop i cs) w" by simp
    qed
    moreover from Cons.prems Suc have "j' \<le> length cs" "startsWith (drop j' cs) w" by simp_all
    ultimately have "search cs w (Suc k) = int (Suc k + j')" using Cons.IH by blast
    with 0 Suc show ?thesis by simp
  qed
qed

lemma indexOf_found:
  assumes "firstFrom s w (nat fromIndex) p"
  shows "indexOf s w fromIndex = int p"
proof -
  define k where "k = nat (min (max fromIndex 0) (int (length s)))"
  from assms have p: "nat fromIndex \<le> p" "p \<le> length s" "startsWith (drop p s) w"
    and least: "\<forall>q. nat fromIndex \<le> q \<and> q < p \<longrightarrow> \<not> startsWith (drop q s) w"
    by (auto simp: firstFrom_def occursAt_def startsWith_def)
  from p have k: "k = nat fromIndex" unfolding k_def by linarith
  have 1: "p - k \<le> length (drop k s)" using p k by auto
  have 2: "startsWith (drop (p - k) (drop k s)) w" using p k by simp
  have 3: "\<forall>i < p - k. \<not> startsWith (drop i (drop k s)) w"
  proof (intro allI impI)
    fix i assume "i < p - k"
    then have "nat fromIndex \<le> i + k \<and> i + k < p" using k by linarith
    with least have "\<not> startsWith (drop (i + k) s) w" by blast
    then show "\<not> startsWith (drop i (drop k s)) w" by (simp add: add.commute)
  qed
  from search_found [OF 1 2 3, of k] p k have "search (drop k s) w k = int p" by simp
  then show ?thesis by (simp add: indexOf_def Let_def k_def)
qed

lemma indexOf_none:
  assumes "w \<noteq> []" "\<forall>p \<ge> nat fromIndex. \<not> occursAt s w p"
  shows "indexOf s w fromIndex = - 1"
proof -
  define k where "k = nat (min (max fromIndex 0) (int (length s)))"
  have kl: "k \<le> length s" unfolding k_def by linarith
  have kk: "k = nat fromIndex \<or> k = length s" unfolding k_def by linarith
  have "\<forall>j \<le> length (drop k s). \<not> startsWith (drop j (drop k s)) w"
  proof (intro allI impI)
    fix j assume j: "j \<le> length (drop k s)"
    with kl have jl: "j + k \<le> length s" by simp
    show "\<not> startsWith (drop j (drop k s)) w"
    proof (cases "nat fromIndex \<le> j + k")
      case True
      with assms(2) jl have "\<not> startsWith (drop (j + k) s) w"
        by (auto simp: occursAt_def startsWith_def)
      then show ?thesis by (simp add: add.commute)
    next
      case False
      with kk have "k = length s" by linarith
      with assms(1) show ?thesis by (auto simp: startsWith_def)
    qed
  qed
  from search_none [OF this] have "search (drop k s) w k = - 1" .
  then show ?thesis by (simp add: indexOf_def Let_def k_def)
qed

lemma indexOf_cases:
  assumes "w \<noteq> []"
  shows "(indexOf s w k = - 1 \<and> (\<forall>p \<ge> nat k. \<not> occursAt s w p))
       \<or> (\<exists>p. indexOf s w k = int p \<and> firstFrom s w (nat k) p)"
proof (cases "\<exists>p \<ge> nat k. occursAt s w p")
  case True
  define P where "P = (\<lambda>p. nat k \<le> p \<and> occursAt s w p)"
  from True have "\<exists>p. P p" by (auto simp: P_def)
  then obtain p where "P p" "\<forall>q < p. \<not> P q"
    using exists_least_iff [of P] by blast
  then have "firstFrom s w (nat k) p" by (auto simp: P_def firstFrom_def)
  with indexOf_found [OF this] show ?thesis by blast
next
  case False
  then have "\<forall>p \<ge> nat k. \<not> occursAt s w p" by blast
  with indexOf_none [OF assms this] show ?thesis by blast
qed

text \<open>
  C3. The aligner takes the words in order with one cursor, starting at 0. A word that
  is neither empty nor blank is searched from the cursor: found there, it is recorded at
  the first occurrence at or after the cursor; not found there, it is recorded at its
  first occurrence in the whole text; found nowhere, it is dropped and the cursor stays.
  A recorded word moves the cursor to its position plus its length. The text
  U+6771 U+4EAC U+306B U+884C U+304F with the words U+6771 U+4EAC and U+884C U+304F
  gives positions 0 and 3, both of length 2.
\<close>

theorem alignWords_cursor:
  "(sw_word wd \<noteq> [] \<and> trim (sw_word wd) \<noteq> [] \<and> firstFrom originalText (sw_word wd) (nat cursor) p \<longrightarrow>
      alignWords originalText (wd # rest) cursor acc =
        alignWords originalText rest (int p + int (length (sw_word wd))) (acc @ [makeWordObj wd (int p)]))
   \<and> (sw_word wd \<noteq> [] \<and> trim (sw_word wd) \<noteq> [] \<and> (\<forall>q \<ge> nat cursor. \<not> occursAt originalText (sw_word wd) q)
        \<and> firstFrom originalText (sw_word wd) 0 p \<longrightarrow>
      alignWords originalText (wd # rest) cursor acc =
        alignWords originalText rest (int p + int (length (sw_word wd))) (acc @ [makeWordObj wd (int p)]))
   \<and> (sw_word wd \<noteq> [] \<and> trim (sw_word wd) \<noteq> [] \<and> (\<forall>q. \<not> occursAt originalText (sw_word wd) q) \<longrightarrow>
      alignWords originalText (wd # rest) cursor acc = alignWords originalText rest cursor acc)
   \<and> alignWords originalText [] cursor acc = acc
   \<and> map (\<lambda>w. (wo_word w, wo_position w, wo_length w))
        (alignWords [0x6771, 0x4EAC, 0x306B, 0x884C, 0x304F]
           [\<lparr>sw_word = [0x6771, 0x4EAC], sw_reading = r1, sw_pos = p1\<rparr>,
            \<lparr>sw_word = [0x884C, 0x304F], sw_reading = r2, sw_pos = p2\<rparr>] 0 [])
      = [([0x6771, 0x4EAC], 0, 2), ([0x884C, 0x304F], 3, 2)]"
proof (intro conjI impI)
  assume h: "sw_word wd \<noteq> [] \<and> trim (sw_word wd) \<noteq> [] \<and> firstFrom originalText (sw_word wd) (nat cursor) p"
  then have "indexOf originalText (sw_word wd) cursor = int p" by (simp add: indexOf_found)
  with h show "alignWords originalText (wd # rest) cursor acc =
        alignWords originalText rest (int p + int (length (sw_word wd))) (acc @ [makeWordObj wd (int p)])"
    by (simp add: Let_def)
next
  assume h: "sw_word wd \<noteq> [] \<and> trim (sw_word wd) \<noteq> [] \<and> (\<forall>q \<ge> nat cursor. \<not> occursAt originalText (sw_word wd) q)
        \<and> firstFrom originalText (sw_word wd) 0 p"
  then have "indexOf originalText (sw_word wd) cursor = - 1" by (simp add: indexOf_none)
  moreover from h have "indexOf originalText (sw_word wd) 0 = int p" by (simp add: indexOf_found)
  ultimately show "alignWords originalText (wd # rest) cursor acc =
        alignWords originalText rest (int p + int (length (sw_word wd))) (acc @ [makeWordObj wd (int p)])"
    using h by (simp add: Let_def)
next
  assume h: "sw_word wd \<noteq> [] \<and> trim (sw_word wd) \<noteq> [] \<and> (\<forall>q. \<not> occursAt originalText (sw_word wd) q)"
  then have "indexOf originalText (sw_word wd) cursor = - 1" "indexOf originalText (sw_word wd) 0 = - 1"
    by (simp_all add: indexOf_none)
  with h show "alignWords originalText (wd # rest) cursor acc = alignWords originalText rest cursor acc"
    by (simp add: Let_def)
next
  show "alignWords originalText [] cursor acc = acc" by simp
next
  show "map (\<lambda>w. (wo_word w, wo_position w, wo_length w))
        (alignWords [0x6771, 0x4EAC, 0x306B, 0x884C, 0x304F]
           [\<lparr>sw_word = [0x6771, 0x4EAC], sw_reading = r1, sw_pos = p1\<rparr>,
            \<lparr>sw_word = [0x884C, 0x304F], sw_reading = r2, sw_pos = p2\<rparr>] 0 [])
      = [([0x6771, 0x4EAC], 0, 2), ([0x884C, 0x304F], 3, 2)]"
    by (simp add: trim_def isWhiteSpace_def indexOf_def startsWith_def Let_def makeWordObj_def)
qed


theorem alignWords_cursor_witness:
  "alignWords [0x6771, 0x4EAC, 0x306B, 0x884C, 0x304F]
     [\<lparr>sw_word = [0x884C, 0x304F], sw_reading = [], sw_pos = []\<rparr>] 2 []
     = [makeWordObj \<lparr>sw_word = [0x884C, 0x304F], sw_reading = [], sw_pos = []\<rparr> 3]
   \<and> alignWords [0x6771, 0x4EAC, 0x306B, 0x884C, 0x304F]
     [\<lparr>sw_word = [0x6771, 0x4EAC], sw_reading = [], sw_pos = []\<rparr>] 5 []
     = [makeWordObj \<lparr>sw_word = [0x6771, 0x4EAC], sw_reading = [], sw_pos = []\<rparr> 0]
   \<and> alignWords [0x6771, 0x4EAC, 0x306B, 0x884C, 0x304F]
     [\<lparr>sw_word = [0x90FD], sw_reading = [], sw_pos = []\<rparr>] 2 [] = []"
proof -
  let ?text = "[0x6771, 0x4EAC, 0x306B, 0x884C, 0x304F] :: jsstring"
  let ?iku = "\<lparr>sw_word = [0x884C, 0x304F], sw_reading = [], sw_pos = []\<rparr>"
  let ?tokyo = "\<lparr>sw_word = [0x6771, 0x4EAC], sw_reading = [], sw_pos = []\<rparr>"
  let ?to = "\<lparr>sw_word = [0x90FD], sw_reading = [], sw_pos = []\<rparr>"
  have e: "\<And>acc c. alignWords ?text [] c acc = acc" by simp
  have nb: "trim [0x884C, 0x304F] \<noteq> []" "trim [0x6771, 0x4EAC] \<noteq> []" "trim [0x90FD] \<noteq> []"
    by (simp_all add: trim_def isWhiteSpace_def)
  have "indexOf ?text [0x884C, 0x304F] 2 = 3"
    by (simp add: indexOf_def startsWith_def)
  with indexOf_cases [of "[0x884C, 0x304F]" ?text 2]
  have "firstFrom ?text (sw_word ?iku) (nat 2) 3" by auto
  with nb have 1: "alignWords ?text [?iku] 2 [] = [makeWordObj ?iku 3]"
    using alignWords_cursor [where wd = ?iku and originalText = ?text and cursor = 2 and p = 3
        and rest = "[]" and acc = "[]"]
    by (simp only: e) simp
  have "indexOf ?text [0x6771, 0x4EAC] 5 = - 1" "indexOf ?text [0x6771, 0x4EAC] 0 = 0"
    by (simp_all add: indexOf_def startsWith_def)
  with indexOf_cases [of "[0x6771, 0x4EAC]" ?text 5] indexOf_cases [of "[0x6771, 0x4EAC]" ?text 0]
  have "\<forall>q \<ge> nat 5. \<not> occursAt ?text (sw_word ?tokyo) q" "firstFrom ?text (sw_word ?tokyo) 0 0"
    by auto
  with nb have 2: "alignWords ?text [?tokyo] 5 [] = [makeWordObj ?tokyo 0]"
    using alignWords_cursor [where wd = ?tokyo and originalText = ?text and cursor = 5 and p = 0
        and rest = "[]" and acc = "[]"]
    by (simp only: e) simp
  have "indexOf ?text [0x90FD] 0 = - 1"
    by (simp add: indexOf_def startsWith_def)
  with indexOf_cases [of "[0x90FD]" ?text 0]
  have "\<forall>q. \<not> occursAt ?text (sw_word ?to) q" by auto
  with nb have 3: "alignWords ?text [?to] 2 [] = []"
    using alignWords_cursor [where wd = ?to and originalText = ?text and cursor = 2
        and rest = "[]" and acc = "[]"]
    by (simp only: e) simp
  from 1 2 3 show ?thesis by blast
qed

section \<open>Properties of the reading normalisation\<close>

lemma katakana_no_wrap: "isKatakana c \<Longrightarrow> unat (c - 0x60) = unat c - 0x60"
  unfolding isKatakana_def
  by (simp add: unat_sub word_le_nat_alt) 

lemma alignWords_step:
  "alignWords originalText (wd # ws) c acc = alignWords originalText ws c acc
   \<or> (\<exists>c' p. alignWords originalText (wd # ws) c acc =
          alignWords originalText ws c' (acc @ [makeWordObj wd p]))"
  by (simp add: Let_def) blast

lemma alignWords_set:
  "x \<in> set (alignWords originalText ws c acc) \<Longrightarrow>
     x \<in> set acc \<or> (\<exists>wd \<in> set ws. \<exists>p. x = makeWordObj wd p)"
proof (induction ws arbitrary: c acc)
  case Nil
  then show ?case by simp
next
  case (Cons wd ws)
  from alignWords_step [of originalText wd ws c acc]
  consider "alignWords originalText (wd # ws) c acc = alignWords originalText ws c acc"
    | c' p where "alignWords originalText (wd # ws) c acc =
          alignWords originalText ws c' (acc @ [makeWordObj wd p])"
    by blast
  then show ?case
  proof cases
    case 1
    with Cons.prems have "x \<in> set (alignWords originalText ws c acc)" by (simp only:)
    from Cons.IH [OF this] show ?thesis by auto
  next
    case 2
    with Cons.prems have "x \<in> set (alignWords originalText ws c' (acc @ [makeWordObj wd p]))"
      by (simp only:)
    from Cons.IH [OF this] show ?thesis by auto
  qed
qed

text \<open>
  C10. \<open>convertKatakanaToHiragana\<close> keeps the length; a code unit from U+30A1 to
  U+30F6 becomes the unit 0x60 below it (without wrap-around) and every other unit stays;
  a missing or empty argument gives the empty string. The reading of every word built
  from the tokens, and so the \<open>hiragana\<close> of every aligned word, is the token's
  reading normalised this way.
\<close>

theorem convertKatakanaToHiragana_pointwise:
  "length (convertKatakanaToHiragana (Some s)) = length s
   \<and> (\<forall>i < length s.
        (0x30A1 \<le> s ! i \<and> s ! i \<le> 0x30F6 \<longrightarrow>
           convertKatakanaToHiragana (Some s) ! i = s ! i - 0x60
           \<and> unat (convertKatakanaToHiragana (Some s) ! i) = unat (s ! i) - 0x60)
        \<and> (\<not> (0x30A1 \<le> s ! i \<and> s ! i \<le> 0x30F6) \<longrightarrow>
           convertKatakanaToHiragana (Some s) ! i = s ! i))
   \<and> convertKatakanaToHiragana None = []
   \<and> convertKatakanaToHiragana (Some []) = []
   \<and> map sw_reading (segmentWords tokens) =
       map (\<lambda>token. convertKatakanaToHiragana (tk_reading token))
         (filter (\<lambda>token. tk_pos token \<in> set targetPos) tokens)
   \<and> (\<forall>wordObj \<in> set (alignWords originalText (segmentWords tokens) 0 []).
        \<exists>token \<in> set tokens.
          wo_data wordObj =
            Some \<lparr>d_word = Some (tk_surface_form token),
                  d_hiragana = Some (convertKatakanaToHiragana (tk_reading token)),
                  d_meaning = None\<rparr>)"
proof (intro conjI ballI)
  show "length (convertKatakanaToHiragana (Some s)) = length s"
    by (simp add: convertKatakanaToHiragana_def)
  show "\<forall>i < length s.
        (0x30A1 \<le> s ! i \<and> s ! i \<le> 0x30F6 \<longrightarrow>
           convertKatakanaToHiragana (Some s) ! i = s ! i - 0x60
           \<and> unat (convertKatakanaToHiragana (Some s) ! i) = unat (s ! i) - 0x60)
        \<and> (\<not> (0x30A1 \<le> s ! i \<and> s ! i \<le> 0x30F6) \<longrightarrow>
           convertKatakanaToHiragana (Some s) ! i = s ! i)"
    using katakana_no_wrap by (auto simp: convertKatakanaToHiragana_def isKatakana_def)
  show "convertKatakanaToHiragana None = []" "convertKatakanaToHiragana (Some []) = []"
    by (simp_all add: convertKatakanaToHiragana_def)
  have r: "\<And>r. convertKatakanaToHiragana (Some (orEmpty r)) = convertKatakanaToHiragana r"
    by (simp add: convertKatakanaToHiragana_def orEmpty_def split: option.splits)
  show "map sw_reading (segmentWords tokens) =
       map (\<lambda>token. convertKatakanaToHiragana (tk_reading token))
         (filter (\<lambda>token. tk_pos token \<in> set targetPos) tokens)"
    by (simp add: segmentWords_def r)
  fix wordObj
  assume "wordObj \<in> set (alignWords originalText (segmentWords tokens) 0 [])"
  from alignWords_set [OF this]
  obtain wd p where "wd \<in> set (segmentWords tokens)" "wordObj = makeWordObj wd p"
    by auto
  then show "\<exists>token \<in> set tokens.
          wo_data wordObj =
            Some \<lparr>d_word = Some (tk_surface_form token),
                  d_hiragana = Some (convertKatakanaToHiragana (tk_reading token)),
                  d_meaning = None\<rparr>"
    by (auto simp: segmentWords_def makeWordObj_def r)
qed

theorem convertKatakanaToHiragana_pointwise_witness:
  "convertKatakanaToHiragana (Some [0x30C8, 0x0041, 0x30A1, 0x30F6, 0x30F7]) ! 0 = 0x3068
   \<and> convertKatakanaToHiragana (Some [0x30C8, 0x0041, 0x30A1, 0x30F6, 0x30F7]) ! 1 = 0x0041
   \<and> convertKatakanaToHiragana (Some [0x30C8, 0x0041, 0x30A1, 0x30F6, 0x30F7]) ! 3 = 0x3096
   \<and> convertKatakanaToHiragana (Some [0x30C8, 0x0041, 0x30A1, 0x30F6, 0x30F7]) ! 4 = 0x30F7"
proof -
  let ?s = "[0x30C8, 0x0041, 0x30A1, 0x30F6, 0x30F7] :: jsstring"
  note T = convertKatakanaToHiragana_pointwise [of ?s]
  have "0 < length ?s" "(0x30A1 :: jschar) \<le> ?s ! 0 \<and> ?s ! 0 \<le> 0x30F6" by simp_all
  with T have 0: "convertKatakanaToHiragana (Some ?s) ! 0 = ?s ! 0 - 0x60" by blast
  have "1 < length ?s" "\<not> ((0x30A1 :: jschar) \<le> ?s ! 1 \<and> ?s ! 1 \<le> 0x30F6)" by simp_all
  with T have 1: "convertKatakanaToHiragana (Some ?s) ! 1 = ?s ! 1" by blast
  have "3 < length ?s" "(0x30A1 :: jschar) \<le> ?s ! 3 \<and> ?s ! 3 \<le> 0x30F6" by simp_all
  with T have 3: "convertKatakanaToHiragana (Some ?s) ! 3 = ?s ! 3 - 0x60" by blast
  have "4 < length ?s" "\<not> ((0x30A1 :: jschar) \<le> ?s ! 4 \<and> ?s ! 4 \<le> 0x30F6)" by simp_all
  with T have 4: "convertKatakanaToHiragana (Some ?s) ! 4 = ?s ! 4" by blast
  from 0 1 3 4 show ?thesis by simp
qed

section \<open>Properties of the dictionary lookups\<close>

lemma find_Some_holds:
  "find P ms = Some m \<Longrightarrow> P m"
  by (auto simp: find_Some_iff)

lemma fetchMatches_cases:
  assumes "wellFormed word"
  shows "fetchMatches svc ep word =
     ((case svc (ep, word) of
         NetworkError \<Rightarrow> Inl TypeError
       | Response ok b \<Rightarrow>
           if \<not> ok then Inr None
           else (case b of Malformed \<Rightarrow> Inl SyntaxError | Json matches \<Rightarrow> Inr (Some matches))),
      [(ep, word)])"
  using assms
  by (simp add: fetchMatches_def encodeURIComponent_def split: fetch_result.splits body.splits)

lemma fetchMatches_illFormed:
  "\<not> wellFormed word \<Longrightarrow> fetchMatches svc ep word = (Inl URIError, [])"
  by (simp add: fetchMatches_def encodeURIComponent_def)

lemma list_ex_find: "list_ex P xs \<longleftrightarrow> find P xs \<noteq> None"
  by (induction xs) auto

text \<open>Tier outcomes in terms of the service's answer.\<close>

lemma inflectedTier_fails:
  assumes "wellFormed word" "tierFails svc Inflected word"
  shows "\<exists>e. inflectedTier word meaning (fst (fetchMatches svc Inflected word)) = Threw e"
  using assms
  by (auto simp: fetchMatches_cases tierFails_def inflectedTier_def split: fetch_result.splits body.splits)

lemma inflectedTier_usable:
  assumes "wellFormed word" "tierUsable svc Inflected word"
  shows "\<exists>m. inflectedTier word meaning (fst (fetchMatches svc Inflected word)) = Returned (Some m)
            \<and> m \<noteq> [] \<and> trim m \<noteq> []"
proof -
  from assms(2) obtain matches where s: "svc (Inflected, word) = Response True (Json matches)"
    and ex: "list_ex hasMeaning (nonEmptyMatches matches)"
    by (auto simp: tierUsable_def split: fetch_result.splits body.splits)
  from ex obtain first others where ne: "nonEmptyMatches matches = first # others"
    by (cases "nonEmptyMatches matches") auto
  from ex ne obtain a where a: "find hasMeaning (first # others) = Some a"
    using list_ex_find [of hasMeaning "first # others"] by auto
  then have ha: "hasMeaning a" by (rule find_Some_holds)
  have f: "fst (fetchMatches svc Inflected word) = Inr (Some matches)"
    using assms(1) s by (simp add: fetchMatches_cases)
  show ?thesis
  proof (cases "find (\<lambda>m. d_word m = Some word \<and> hasMeaning m) (first # others)")
    case None
    with a ha f ne show ?thesis
      by (auto simp: inflectedTier_def hasMeaning_def truthy_def orEmpty_def split: option.splits)
  next
    case (Some b)
    then have "d_word b = Some word \<and> hasMeaning b" by (rule find_Some_holds)
    with Some f ne show ?thesis
      by (auto simp: inflectedTier_def hasMeaning_def truthy_def orEmpty_def split: option.splits)
  qed
qed

lemma inflectedTier_nothing:
  assumes "wellFormed word" "tierNothing svc Inflected word"
  shows "\<exists>m'. inflectedTier word meaning (fst (fetchMatches svc Inflected word)) = FellThrough m'
            \<and> (m' = meaning \<or> (m' \<noteq> None \<and> trim (orEmpty m') = []))"
proof (cases "svc (Inflected, word)")
  case NetworkError
  with assms(2) show ?thesis by (simp add: tierNothing_def tierFails_def)
next
  case (Response ok b)
  show ?thesis
  proof (cases ok)
    case False
    with Response assms(1) show ?thesis by (simp add: fetchMatches_cases inflectedTier_def)
  next
    case True
    with Response assms(2) obtain matches where b: "b = Json matches"
      and no: "\<not> list_ex hasMeaning (nonEmptyMatches matches)"
      by (cases b) (auto simp: tierNothing_def tierFails_def tierUsable_def)
    have f: "fst (fetchMatches svc Inflected word) = Inr (Some matches)"
      using assms(1) Response True b by (simp add: fetchMatches_cases)
    show ?thesis
    proof (cases "nonEmptyMatches matches")
      case Nil
      with f show ?thesis by (simp add: inflectedTier_def)
    next
      case (Cons first others)
      with no have n1: "find hasMeaning (first # others) = None"
        using list_ex_find [of hasMeaning "first # others"] by simp
      then have all: "\<forall>m \<in> set (first # others). \<not> hasMeaning m"
        unfolding find_None_iff by blast
      then have n2: "find (\<lambda>m. d_word m = Some word \<and> hasMeaning m) (first # others) = None"
        unfolding find_None_iff by blast
      from all have "\<not> hasMeaning first" by simp
      then have "truthy (d_meaning first) \<longrightarrow> d_meaning first \<noteq> None \<and> trim (orEmpty (d_meaning first)) = []"
        by (auto simp: hasMeaning_def truthy_def split: option.splits)
      with f Cons n1 n2 show ?thesis
        by (simp add: inflectedTier_def del: find.simps)
    qed
  qed
qed


lemma directTier_fails:
  assumes "wellFormed word" "tierFails svc Direct word"
  shows "\<exists>e. directTier word meaning (fst (fetchMatches svc Direct word)) = Threw e"
  using assms
  by (auto simp: fetchMatches_cases tierFails_def directTier_def split: fetch_result.splits body.splits)

lemma directTier_usable:
  assumes "wellFormed word" "tierUsable svc Direct word"
  shows "\<exists>m. directTier word meaning (fst (fetchMatches svc Direct word)) = Returned (Some m)
            \<and> m \<noteq> [] \<and> trim m \<noteq> []"
proof -
  from assms(2) obtain matches where s: "svc (Direct, word) = Response True (Json matches)"
    and ex: "list_ex hasMeaning (nonEmptyMatches matches)"
    by (auto simp: tierUsable_def split: fetch_result.splits body.splits)
  from ex obtain a where a: "find hasMeaning (nonEmptyMatches matches) = Some a"
    using list_ex_find [of hasMeaning "nonEmptyMatches matches"] by auto
  then have ha: "hasMeaning a" by (rule find_Some_holds)
  have f: "fst (fetchMatches svc Direct word) = Inr (Some matches)"
    using assms(1) s by (simp add: fetchMatches_cases)
  from a ha f show ?thesis
    by (auto simp: directTier_def hasMeaning_def truthy_def orEmpty_def split: option.splits)
qed

lemma directTier_nothing:
  assumes "wellFormed word" "tierNothing svc Direct word"
  shows "directTier word meaning (fst (fetchMatches svc Direct word)) = FellThrough meaning"
proof (cases "svc (Direct, word)")
  case NetworkError
  with assms(2) show ?thesis by (simp add: tierNothing_def tierFails_def)
next
  case (Response ok b)
  show ?thesis
  proof (cases ok)
    case False
    with Response assms(1) show ?thesis by (simp add: fetchMatches_cases directTier_def)
  next
    case True
    with Response assms(2) obtain matches where b: "b = Json matches"
      and no: "\<not> list_ex hasMeaning (nonEmptyMatches matches)"
      by (cases b) (auto simp: tierNothing_def tierFails_def tierUsable_def)
    have f: "fst (fetchMatches svc Direct word) = Inr (Some matches)"
      using assms(1) Response True b by (simp add: fetchMatches_cases)
    from no have "find hasMeaning (nonEmptyMatches matches) = None"
      using list_ex_find [of hasMeaning "nonEmptyMatches matches"] by simp
    with f show ?thesis by (simp add: directTier_def)
  qed
qed

lemma partialTier_fails:
  assumes "wellFormed word" "tierFails svc Partial word"
  shows "\<exists>e. partialTier word meaning (fst (fetchMatches svc Partial word)) = Threw e"
  using assms
  by (auto simp: fetchMatches_cases tierFails_def partialTier_def split: fetch_result.splits body.splits)

lemma partialTier_usable:
  assumes "wellFormed word" "tierUsable svc Partial word"
  shows "\<exists>m. partialTier word meaning (fst (fetchMatches svc Partial word)) = Returned (Some m)
            \<and> m \<noteq> [] \<and> trim m \<noteq> []"
proof -
  from assms(2) obtain matches where s: "svc (Partial, word) = Response True (Json matches)"
    and ex: "list_ex hasMeaning (nonEmptyMatches matches)"
    by (auto simp: tierUsable_def split: fetch_result.splits body.splits)
  from ex obtain a where a: "find hasMeaning (nonEmptyMatches matches) = Some a"
    using list_ex_find [of hasMeaning "nonEmptyMatches matches"] by auto
  then have ha: "hasMeaning a" by (rule find_Some_holds)
  have f: "fst (fetchMatches svc Partial word) = Inr (Some matches)"
    using assms(1) s by (simp add: fetchMatches_cases)
  show ?thesis
  proof (cases "find (\<lambda>m. d_word m = Some word \<and> hasMeaning m) (nonEmptyMatches matches)")
    case None
    with a ha f show ?thesis
      by (auto simp: partialTier_def hasMeaning_def truthy_def orEmpty_def split: option.splits)
  next
    case (Some b)
    then have "d_word b = Some word \<and> hasMeaning b" by (rule find_Some_holds)
    with Some f show ?thesis
      by (auto simp: partialTier_def hasMeaning_def truthy_def orEmpty_def split: option.splits)
  qed
qed

lemma partialTier_nothing:
  assumes "wellFormed word" "tierNothing svc Partial word"
  shows "partialTier word meaning (fst (fetchMatches svc Partial word)) = FellThrough meaning"
proof (cases "svc (Partial, word)")
  case NetworkError
  with assms(2) show ?thesis by (simp add: tierNothing_def tierFails_def)
next
  case (Response ok b)
  show ?thesis
  proof (cases ok)
    case False
    with Response assms(1) show ?thesis by (simp add: fetchMatches_cases partialTier_def)
  next
    case True
    with Response assms(2) obtain matches where b: "b = Json matches"
      and no: "\<not> list_ex hasMeaning (nonEmptyMatches matches)"
      by (cases b) (auto simp: tierNothing_def tierFails_def tierUsable_def)
    have f: "fst (fetchMatches svc Partial word) = Inr (Some matches)"
      using assms(1) Response True b by (simp add: fetchMatches_cases)
    from no have n1: "find hasMeaning (nonEmptyMatches matches) = None"
      using list_ex_find [of hasMeaning "nonEmptyMatches matches"] by simp
    then have "\<forall>m \<in> set (nonEmptyMatches matches). \<not> hasMeaning m"
      unfolding find_None_iff by blast
    then have "find (\<lambda>m. d_word m = Some word \<and> hasMeaning m) (nonEmptyMatches matches) = None"
      unfolding find_None_iff by blast
    with n1 f show ?thesis by (simp add: partialTier_def)
  qed
qed

lemma snd_fetchMatches: "wellFormed word \<Longrightarrow> snd (fetchMatches svc ep word) = [(ep, word)]"
  by (simp add: fetchMatches_cases)

text \<open>The try block, by the outcome of tier 1, then of tier 2, then of tier 3.\<close>

lemma lookupTiers_unfold:
  "lookupTiers svc word meaning =
     (case inflectedTier word meaning (fst (fetchMatches svc Inflected word)) of
        Threw e \<Rightarrow> (Threw e, snd (fetchMatches svc Inflected word))
      | Returned m \<Rightarrow> (Returned m, snd (fetchMatches svc Inflected word))
      | FellThrough meaning1 \<Rightarrow>
          (case directTier word meaning1 (fst (fetchMatches svc Direct word)) of
             Threw e \<Rightarrow> (Threw e, snd (fetchMatches svc Inflected word) @ snd (fetchMatches svc Direct word))
           | Returned m \<Rightarrow> (Returned m, snd (fetchMatches svc Inflected word) @ snd (fetchMatches svc Direct word))
           | FellThrough meaning2 \<Rightarrow>
               (case partialTier word meaning2 (fst (fetchMatches svc Partial word)) of
                  Threw e \<Rightarrow> (Threw e, snd (fetchMatches svc Inflected word)
                      @ snd (fetchMatches svc Direct word) @ snd (fetchMatches svc Partial word))
                | Returned m \<Rightarrow> (Returned m, snd (fetchMatches svc Inflected word)
                      @ snd (fetchMatches svc Direct word) @ snd (fetchMatches svc Partial word))
                | FellThrough meaning3 \<Rightarrow>
                    (if \<not> truthy meaning3 \<or> trim (orEmpty meaning3) = []
                     then (FellThrough (Some noDefinitionFound), snd (fetchMatches svc Inflected word)
                      @ snd (fetchMatches svc Direct word) @ snd (fetchMatches svc Partial word))
                     else (FellThrough meaning3, snd (fetchMatches svc Inflected word)
                      @ snd (fetchMatches svc Direct word) @ snd (fetchMatches svc Partial word))))))"
  by (simp add: lookupTiers_def split_beta Let_def split: tier_result.splits)

lemma lookup_tier1_fails:
  assumes "wellFormed word" "tierFails svc Inflected word"
  shows "lookupWholeWord svc word d = (d\<lparr>d_meaning := Some errorFetchingMeaning\<rparr>, [(Inflected, word)])"
proof -
  from inflectedTier_fails [OF assms] obtain e
    where "inflectedTier word (d_meaning d) (fst (fetchMatches svc Inflected word)) = Threw e"
    by blast
  then show ?thesis
    by (simp add: lookupWholeWord_def lookupTiers_unfold snd_fetchMatches assms(1))
qed

lemma lookup_tier1_usable:
  assumes "wellFormed word" "tierUsable svc Inflected word"
  shows "\<exists>m. lookupWholeWord svc word d = (d\<lparr>d_meaning := Some m\<rparr>, [(Inflected, word)])
           \<and> m \<noteq> [] \<and> trim m \<noteq> []"
proof -
  from inflectedTier_usable [OF assms] obtain m
    where "inflectedTier word (d_meaning d) (fst (fetchMatches svc Inflected word)) = Returned (Some m)"
      "m \<noteq> []" "trim m \<noteq> []"
    by blast
  then show ?thesis
    by (auto simp: lookupWholeWord_def lookupTiers_unfold snd_fetchMatches assms(1))
qed

lemma lookup_tier2_fails:
  assumes "wellFormed word" "tierNothing svc Inflected word" "tierFails svc Direct word"
  shows "lookupWholeWord svc word d =
     (d\<lparr>d_meaning := Some errorFetchingMeaning\<rparr>, [(Inflected, word), (Direct, word)])"
proof -
  from inflectedTier_nothing [OF assms(1,2)] obtain m1
    where 1: "inflectedTier word (d_meaning d) (fst (fetchMatches svc Inflected word)) = FellThrough m1"
    by blast
  from directTier_fails [OF assms(1,3)] obtain e
    where "directTier word m1 (fst (fetchMatches svc Direct word)) = Threw e"
    by blast
  with 1 show ?thesis
    by (simp add: lookupWholeWord_def lookupTiers_unfold snd_fetchMatches assms(1))
qed

lemma lookup_tier2_usable:
  assumes "wellFormed word" "tierNothing svc Inflected word" "tierUsable svc Direct word"
  shows "\<exists>m. lookupWholeWord svc word d =
     (d\<lparr>d_meaning := Some m\<rparr>, [(Inflected, word), (Direct, word)]) \<and> m \<noteq> [] \<and> trim m \<noteq> []"
proof -
  from inflectedTier_nothing [OF assms(1,2)] obtain m1
    where 1: "inflectedTier word (d_meaning d) (fst (fetchMatches svc Inflected word)) = FellThrough m1"
    by blast
  from directTier_usable [OF assms(1,3)] obtain m
    where "directTier word m1 (fst (fetchMatches svc Direct word)) = Returned (Some m)"
      "m \<noteq> []" "trim m \<noteq> []"
    by blast
  with 1 show ?thesis
    by (auto simp: lookupWholeWord_def lookupTiers_unfold snd_fetchMatches assms(1))
qed

lemma lookup_tier3_fails:
  assumes "wellFormed word" "tierNothing svc Inflected word" "tierNothing svc Direct word"
    "tierFails svc Partial word"
  shows "lookupWholeWord svc word d =
     (d\<lparr>d_meaning := Some errorFetchingMeaning\<rparr>,
      [(Inflected, word), (Direct, word), (Partial, word)])"
proof -
  from inflectedTier_nothing [OF assms(1,2)] obtain m1
    where 1: "inflectedTier word (d_meaning d) (fst (fetchMatches svc Inflected word)) = FellThrough m1"
    by blast
  have 2: "directTier word m1 (fst (fetchMatches svc Direct word)) = FellThrough m1"
    by (rule directTier_nothing [OF assms(1,3)])
  from partialTier_fails [OF assms(1,4)] obtain e
    where "partialTier word m1 (fst (fetchMatches svc Partial word)) = Threw e"
    by blast
  with 1 2 show ?thesis
    by (simp add: lookupWholeWord_def lookupTiers_unfold snd_fetchMatches assms(1))
qed

lemma lookup_tier3_usable:
  assumes "wellFormed word" "tierNothing svc Inflected word" "tierNothing svc Direct word"
    "tierUsable svc Partial word"
  shows "\<exists>m. lookupWholeWord svc word d =
     (d\<lparr>d_meaning := Some m\<rparr>, [(Inflected, word), (Direct, word), (Partial, word)])
     \<and> m \<noteq> [] \<and> trim m \<noteq> []"
proof -
  from inflectedTier_nothing [OF assms(1,2)] obtain m1
    where 1: "inflectedTier word (d_meaning d) (fst (fetchMatches svc Inflected word)) = FellThrough m1"
    by blast
  have 2: "directTier word m1 (fst (fetchMatches svc Direct word)) = FellThrough m1"
    by (rule directTier_nothing [OF assms(1,3)])
  from partialTier_usable [OF assms(1,4)] obtain m
    where "partialTier word m1 (fst (fetchMatches svc Partial word)) = Returned (Some m)"
      "m \<noteq> []" "trim m \<noteq> []"
    by blast
  with 1 2 show ?thesis
    by (auto simp: lookupWholeWord_def lookupTiers_unfold snd_fetchMatches assms(1))
qed

lemma lookup_all_nothing:
  assumes "wellFormed word" "tierNothing svc Inflected word" "tierNothing svc Direct word"
    "tierNothing svc Partial word"
  shows "\<exists>m. lookupWholeWord svc word d =
     (d\<lparr>d_meaning := Some m\<rparr>, [(Inflected, word), (Direct, word), (Partial, word)])
     \<and> m \<noteq> [] \<and> (d_meaning d = None \<longrightarrow> m = noDefinitionFound)"
proof -
  from inflectedTier_nothing [OF assms(1,2)] obtain m1
    where 1: "inflectedTier word (d_meaning d) (fst (fetchMatches svc Inflected word)) = FellThrough m1"
      and m1: "m1 = d_meaning d \<or> (m1 \<noteq> None \<and> trim (orEmpty m1) = [])"
    by blast
  have 2: "directTier word m1 (fst (fetchMatches svc Direct word)) = FellThrough m1"
    by (rule directTier_nothing [OF assms(1,3)])
  have 3: "partialTier word m1 (fst (fetchMatches svc Partial word)) = FellThrough m1"
    by (rule partialTier_nothing [OF assms(1,4)])
  have nd: "noDefinitionFound \<noteq> []" by (simp add: noDefinitionFound_def ascii_def)
  show ?thesis
  proof (cases "\<not> truthy m1 \<or> trim (orEmpty m1) = []")
    case True
    with 1 2 3 nd show ?thesis
      by (auto simp: lookupWholeWord_def lookupTiers_unfold snd_fetchMatches assms(1))
  next
    case False
    then obtain m where m: "m1 = Some m" "m \<noteq> []"
      by (auto simp: truthy_def split: option.splits)
    from False m1 have "d_meaning d \<noteq> None"
      by (auto simp: truthy_def split: option.splits)
    with False 1 2 3 m show ?thesis
      by (auto simp: lookupWholeWord_def lookupTiers_unfold snd_fetchMatches assms(1))
  qed
qed

lemma lookup_illFormed:
  assumes "\<not> wellFormed word"
  shows "lookupWholeWord svc word d = (d\<lparr>d_meaning := Some errorFetchingMeaning\<rparr>, [])"
  using assms
  by (simp add: lookupWholeWord_def lookupTiers_unfold fetchMatches_illFormed inflectedTier_def)

lemma tier_trichotomy:
  "tierFails svc ep word \<or> tierUsable svc ep word \<or> tierNothing svc ep word"
  by (auto simp: tierNothing_def)

lemma wordTokyo_ok: "wellFormed wordTokyo"
  by (simp add: wordTokyo_def isHighSurrogate_def isLowSurrogate_def)

lemma hasMeaning_matchTokyo: "hasMeaning matchTokyo"
  by (simp add: hasMeaning_def matchTokyo_def truthy_def orEmpty_def ascii_def trim_def isWhiteSpace_def)

lemma exactUsable_tierUsable: "exactUsable svc word \<Longrightarrow> tierUsable svc Inflected word"
  by (auto simp: exactUsable_def tierUsable_def list_ex_iff split: fetch_result.splits body.splits)

lemma lookupWholeWord_exact_match:
  assumes "wellFormed word" "exactUsable svc word"
  shows "\<exists>m. lookupWholeWord svc word d = (d\<lparr>d_meaning := Some m\<rparr>, [(Inflected, word)])
           \<and> m \<noteq> [] \<and> trim m \<noteq> []"
  using lookup_tier1_usable [OF assms(1) exactUsable_tierUsable [OF assms(2)]] .

text \<open>The runs of \<open>lookupWholeWord\<close> on an encodable word, by the tier that ends them.\<close>

lemma lookupWholeWord_cases:
  assumes wf: "wellFormed word"
  shows
    "(tierFails svc Inflected word
        \<and> lookupWholeWord svc word d =
            (d\<lparr>d_meaning := Some errorFetchingMeaning\<rparr>, [(Inflected, word)]))
     \<or> (tierUsable svc Inflected word
        \<and> (\<exists>m. lookupWholeWord svc word d = (d\<lparr>d_meaning := Some m\<rparr>, [(Inflected, word)])))
     \<or> (tierNothing svc Inflected word \<and> tierFails svc Direct word
        \<and> lookupWholeWord svc word d =
            (d\<lparr>d_meaning := Some errorFetchingMeaning\<rparr>, [(Inflected, word), (Direct, word)]))
     \<or> (tierNothing svc Inflected word \<and> tierUsable svc Direct word
        \<and> (\<exists>m. lookupWholeWord svc word d =
            (d\<lparr>d_meaning := Some m\<rparr>, [(Inflected, word), (Direct, word)])))
     \<or> (tierNothing svc Inflected word \<and> tierNothing svc Direct word
        \<and> (\<exists>m. lookupWholeWord svc word d =
            (d\<lparr>d_meaning := Some m\<rparr>, [(Inflected, word), (Direct, word), (Partial, word)])))"
proof -
  consider (f1) "tierFails svc Inflected word" | (u1) "tierUsable svc Inflected word"
    | (n1) "tierNothing svc Inflected word" using tier_trichotomy by blast
  then show ?thesis
  proof cases
    case f1
    with lookup_tier1_fails [OF wf f1, of d] show ?thesis by blast
  next
    case u1
    with lookup_tier1_usable [OF wf u1, of d] show ?thesis by blast
  next
    case n1
    consider (f2) "tierFails svc Direct word" | (u2) "tierUsable svc Direct word"
      | (n2) "tierNothing svc Direct word" using tier_trichotomy by blast
    then show ?thesis
    proof cases
      case f2
      with n1 lookup_tier2_fails [OF wf n1 f2, of d] show ?thesis by blast
    next
      case u2
      with n1 lookup_tier2_usable [OF wf n1 u2, of d] show ?thesis by blast
    next
      case n2
      consider (f3) "tierFails svc Partial word" | (u3) "tierUsable svc Partial word"
        | (n3) "tierNothing svc Partial word" using tier_trichotomy by blast
      then have "\<exists>m. lookupWholeWord svc word d =
            (d\<lparr>d_meaning := Some m\<rparr>, [(Inflected, word), (Direct, word), (Partial, word)])"
      proof cases
        case f3
        with lookup_tier3_fails [OF wf n1 n2 f3, of d] show ?thesis by blast
      next
        case u3
        with lookup_tier3_usable [OF wf n1 n2 u3, of d] show ?thesis by blast
      next
        case n3
        with lookup_all_nothing [OF wf n1 n2 n3, of d] show ?thesis by blast
      qed
      with n1 n2 show ?thesis by blast
    qed
  qed
qed

lemma lookupWholeWord_tier_order:
  "snd (lookupWholeWord svc word d) \<in>
      {[], [(Inflected, word)], [(Inflected, word), (Direct, word)],
       [(Inflected, word), (Direct, word), (Partial, word)]}
   \<and> ((Direct, word) \<in> set (snd (lookupWholeWord svc word d)) \<longrightarrow> tierNothing svc Inflected word)
   \<and> ((Partial, word) \<in> set (snd (lookupWholeWord svc word d)) \<longrightarrow>
        tierNothing svc Inflected word \<and> tierNothing svc Direct word)"
proof (cases "wellFormed word")
  case False
  then show ?thesis by (simp add: lookup_illFormed)
next
  case True
  from lookupWholeWord_cases [OF True, of svc d] show ?thesis by auto
qed

lemma lookupWholeWord_gloss_set: "d_meaning (fst (lookupWholeWord svc word d)) \<noteq> None"
proof (cases "wellFormed word")
  case False
  then show ?thesis by (simp add: lookup_illFormed)
next
  case True
  from lookupWholeWord_cases [OF True, of svc d] show ?thesis by auto
qed

lemma lookupWholeWord_first_request:
  assumes "wellFormed word"
  shows "\<exists>rest. snd (lookupWholeWord svc word d) = (Inflected, word) # rest"
  using lookupWholeWord_cases [OF assms, of svc d] by auto

text \<open>
  C6. The tiers should be queried in the order inflected, direct, partial, each only when
  the one before returned no usable meaning, and an exact match with a meaning in tier 1
  should end the lookup after one request. \<open>lookupWholeWord_tier_order\<close> and
  \<open>lookupWholeWord_exact_match\<close> show it for \<open>lookupWholeWord\<close> (lines 536-632).
  The \<open>lookupWholeWord\<close> of lines 1297-1367 looks at the first record for the word
  only: when tier 1 answers with two records for the word and only the second has a
  meaning, it issues the direct and the partial request as well and ends with
  "No definition found".
\<close>

theorem lookupWholeWord2_second_exact_match:
  "exactUsable svcDuplicateExact wordTokyo
   \<and> lookupWholeWord2 svcDuplicateExact wordTokyo (freshData wordTokyo) =
       ((freshData wordTokyo)\<lparr>d_meaning := Some noDefinitionFound\<rparr>,
        [(Inflected, wordTokyo), (Direct, wordTokyo), (Partial, wordTokyo)])"
proof
  show "exactUsable svcDuplicateExact wordTokyo"
    using hasMeaning_matchTokyo
    by (simp add: exactUsable_def svcDuplicateExact_def nonEmptyMatches_def matchTokyo_def)
  have e: "encodeURIComponent wordTokyo = Inr wordTokyo"
    using wordTokyo_ok by (simp add: encodeURIComponent_def)
  show "lookupWholeWord2 svcDuplicateExact wordTokyo (freshData wordTokyo) =
       ((freshData wordTokyo)\<lparr>d_meaning := Some noDefinitionFound\<rparr>,
        [(Inflected, wordTokyo), (Direct, wordTokyo), (Partial, wordTokyo)])"
    by (simp add: lookupWholeWord2_def lookupTiers2_def fetchMatches_def e svcDuplicateExact_def
        inflectedTier2_def firstMatchTier2_def nonEmptyMatches_def truthy_def freshData_def
        matchTokyo_def)
qed

text \<open>
  C7, as stated, fails: when the inflected request is rejected, the lookup ends with
  "Error fetching meaning" after that one request, although the direct search would have
  returned a usable meaning.
\<close>

theorem lookupWholeWord_failure_aborts:
  "tierUsable svcInflectedDown Direct wordTokyo
   \<and> lookupWholeWord svcInflectedDown wordTokyo (freshData wordTokyo) =
       ((freshData wordTokyo)\<lparr>d_meaning := Some errorFetchingMeaning\<rparr>, [(Inflected, wordTokyo)])"
proof
  show "tierUsable svcInflectedDown Direct wordTokyo"
    using hasMeaning_matchTokyo
    by (simp add: tierUsable_def svcInflectedDown_def nonEmptyMatches_def)
  have "tierFails svcInflectedDown Inflected wordTokyo"
    by (simp add: tierFails_def svcInflectedDown_def)
  from lookup_tier1_fails [OF wordTokyo_ok this]
  show "lookupWholeWord svcInflectedDown wordTokyo (freshData wordTokyo) =
       ((freshData wordTokyo)\<lparr>d_meaning := Some errorFetchingMeaning\<rparr>, [(Inflected, wordTokyo)])" .
qed

text \<open>
  C7, amended. \<open>lookupWholeWord\<close> never throws and always leaves a gloss. A tier whose
  response is not ok, or holds no match with a meaning, produces nothing and the next tier
  is queried. A failure at any tier (a rejected request, a malformed body), or a word that
  cannot be encoded, ends the whole lookup with "Error fetching meaning" and no further
  request. When no tier fails and none yields a usable meaning, the gloss of a word that
  had none becomes "No definition found".
\<close>

theorem lookupWholeWord_outcomes:
  "d_meaning (fst (lookupWholeWord svc word d)) \<noteq> None
   \<and> (\<not> wellFormed word \<longrightarrow>
        lookupWholeWord svc word d = (d\<lparr>d_meaning := Some errorFetchingMeaning\<rparr>, []))
   \<and> (wellFormed word \<and> tierFails svc Inflected word \<longrightarrow>
        lookupWholeWord svc word d =
          (d\<lparr>d_meaning := Some errorFetchingMeaning\<rparr>, [(Inflected, word)]))
   \<and> (wellFormed word \<and> tierNothing svc Inflected word \<and> tierFails svc Direct word \<longrightarrow>
        lookupWholeWord svc word d =
          (d\<lparr>d_meaning := Some errorFetchingMeaning\<rparr>, [(Inflected, word), (Direct, word)]))
   \<and> (wellFormed word \<and> tierNothing svc Inflected word \<and> tierNothing svc Direct word
        \<and> tierFails svc Partial word \<longrightarrow>
        lookupWholeWord svc word d =
          (d\<lparr>d_meaning := Some errorFetchingMeaning\<rparr>,
           [(Inflected, word), (Direct, word), (Partial, word)]))
   \<and> (wellFormed word \<and> tierNothing svc Inflected word \<and> tierNothing svc Direct word
        \<and> tierNothing svc Partial word \<and> d_meaning d = None \<longrightarrow>
        lookupWholeWord svc word d =
          (d\<lparr>d_meaning := Some noDefinitionFound\<rparr>,
           [(Inflected, word), (Direct, word), (Partial, word)]))
   \<and> (svc (ep, word) = NetworkError \<or> svc (ep, word) = Response True Malformed \<longrightarrow>
        tierFails svc ep word)
   \<and> (svc (ep, word) = Response False b \<longrightarrow> tierNothing svc ep word)
   \<and> (svc (ep, word) = Response True (Json matches)
        \<and> \<not> list_ex hasMeaning (nonEmptyMatches matches) \<longrightarrow> tierNothing svc ep word)
   \<and> (wellFormed word \<and> tierNothing svc Inflected word \<longrightarrow>
        (Direct, word) \<in> set (snd (lookupWholeWord svc word d)))
   \<and> (wellFormed word \<and> tierNothing svc Inflected word \<and> tierNothing svc Direct word \<longrightarrow>
        (Partial, word) \<in> set (snd (lookupWholeWord svc word d)))"
proof (intro conjI impI)
  show "tierNothing svc ep word"
    if "svc (ep, word) = Response True (Json matches)
        \<and> \<not> list_ex hasMeaning (nonEmptyMatches matches)"
    using that by (simp add: tierNothing_def tierFails_def tierUsable_def)
  have excl: "\<not> (tierNothing svc e word \<and> (tierFails svc e word \<or> tierUsable svc e word))" for e
    by (auto simp: tierNothing_def)
  show "(Direct, word) \<in> set (snd (lookupWholeWord svc word d))"
    if "wellFormed word \<and> tierNothing svc Inflected word"
    using that lookupWholeWord_cases [of word svc d] excl [of Inflected] by auto
  show "(Partial, word) \<in> set (snd (lookupWholeWord svc word d))"
    if "wellFormed word \<and> tierNothing svc Inflected word \<and> tierNothing svc Direct word"
    using that lookupWholeWord_cases [of word svc d] excl [of Inflected] excl [of Direct] by auto
  show "d_meaning (fst (lookupWholeWord svc word d)) \<noteq> None"
    by (rule lookupWholeWord_gloss_set)
  show "lookupWholeWord svc word d = (d\<lparr>d_meaning := Some errorFetchingMeaning\<rparr>, [])"
    if "\<not> wellFormed word" using that by (rule lookup_illFormed)
  show "lookupWholeWord svc word d =
          (d\<lparr>d_meaning := Some errorFetchingMeaning\<rparr>, [(Inflected, word)])"
    if "wellFormed word \<and> tierFails svc Inflected word"
    using that lookup_tier1_fails by blast
  show "lookupWholeWord svc word d =
          (d\<lparr>d_meaning := Some errorFetchingMeaning\<rparr>, [(Inflected, word), (Direct, word)])"
    if "wellFormed word \<and> tierNothing svc Inflected word \<and> tierFails svc Direct word"
    using that lookup_tier2_fails by blast
  show "lookupWholeWord svc word d =
          (d\<lparr>d_meaning := Some errorFetchingMeaning\<rparr>,
           [(Inflected, word), (Direct, word), (Partial, word)])"
    if "wellFormed word \<and> tierNothing svc Inflected word \<and> tierNothing svc Direct word
        \<and> tierFails svc Partial word"
    using that lookup_tier3_fails by blast
  show "lookupWholeWord svc word d =
          (d\<lparr>d_meaning := Some noDefinitionFound\<rparr>,
           [(Inflected, word), (Direct, word), (Partial, word)])"
    if h: "wellFormed word \<and> tierNothing svc Inflected word \<and> tierNothing svc Direct word
        \<and> tierNothing svc Partial word \<and> d_meaning d = None"
  proof -
    from h lookup_all_nothing [of word svc d] show ?thesis by auto
  qed
  show "tierFails svc ep word"
    if "svc (ep, word) = NetworkError \<or> svc (ep, word) = Response True Malformed"
    using that by (auto simp: tierFails_def)
  show "tierNothing svc ep word" if "svc (ep, word) = Response False b"
    using that by (simp add: tierNothing_def tierFails_def tierUsable_def)
qed

theorem lookupWholeWord_outcomes_witness:
  "lookupWholeWord svcInflectedDown wordTokyo (freshData wordTokyo) =
     ((freshData wordTokyo)\<lparr>d_meaning := Some errorFetchingMeaning\<rparr>, [(Inflected, wordTokyo)])
   \<and> lookupWholeWord svcNotOk wordTokyo (freshData wordTokyo) =
     ((freshData wordTokyo)\<lparr>d_meaning := Some noDefinitionFound\<rparr>,
      [(Inflected, wordTokyo), (Direct, wordTokyo), (Partial, wordTokyo)])
   \<and> lookupWholeWord svcExact [0xD800] (freshData [0xD800]) =
     ((freshData [0xD800])\<lparr>d_meaning := Some errorFetchingMeaning\<rparr>, [])"
proof -
  have "svcInflectedDown (Inflected, wordTokyo) = NetworkError"
    by (simp add: svcInflectedDown_def)
  then have f: "tierFails svcInflectedDown Inflected wordTokyo"
    using lookupWholeWord_outcomes [of svcInflectedDown wordTokyo _ Inflected] by blast
  have 1: "lookupWholeWord svcInflectedDown wordTokyo (freshData wordTokyo) =
     ((freshData wordTokyo)\<lparr>d_meaning := Some errorFetchingMeaning\<rparr>, [(Inflected, wordTokyo)])"
    using lookupWholeWord_outcomes [of svcInflectedDown wordTokyo "freshData wordTokyo"] f wordTokyo_ok
    by blast
  have n: "tierNothing svcNotOk Inflected wordTokyo" "tierNothing svcNotOk Direct wordTokyo"
    "tierNothing svcNotOk Partial wordTokyo"
    using lookupWholeWord_outcomes [of svcNotOk wordTokyo _ Inflected Malformed]
      lookupWholeWord_outcomes [of svcNotOk wordTokyo _ Direct Malformed]
      lookupWholeWord_outcomes [of svcNotOk wordTokyo _ Partial Malformed]
    by (simp_all add: svcNotOk_def)
  have "d_meaning (freshData wordTokyo) = None" by (simp add: freshData_def)
  with n wordTokyo_ok have 2: "lookupWholeWord svcNotOk wordTokyo (freshData wordTokyo) =
     ((freshData wordTokyo)\<lparr>d_meaning := Some noDefinitionFound\<rparr>,
      [(Inflected, wordTokyo), (Direct, wordTokyo), (Partial, wordTokyo)])"
    using lookupWholeWord_outcomes [of svcNotOk wordTokyo "freshData wordTokyo"] by blast
  have "\<not> wellFormed [0xD800]" by (simp add: isHighSurrogate_def)
  then have 3: "lookupWholeWord svcExact [0xD800] (freshData [0xD800]) =
     ((freshData [0xD800])\<lparr>d_meaning := Some errorFetchingMeaning\<rparr>, [])"
    using lookupWholeWord_outcomes [of svcExact "[0xD800]" "freshData [0xD800]"] by blast
  from 1 2 3 show ?thesis by blast
qed

text \<open>
  C8, as stated, fails: \<open>lookupWholeWord\<close> has no cache. Resolving the same word again,
  on the object already resolved, issues the inflected request again.
\<close>

theorem lookupWholeWord_requests_again:
  "lookupWholeWord svcExact wordTokyo (freshData wordTokyo) =
     ((freshData wordTokyo)\<lparr>d_meaning := Some (ascii ''Tokyo'')\<rparr>, [(Inflected, wordTokyo)])
   \<and> snd (lookupWholeWord svcExact wordTokyo
            (fst (lookupWholeWord svcExact wordTokyo (freshData wordTokyo)))) =
       [(Inflected, wordTokyo)]"
proof -
  have e: "encodeURIComponent wordTokyo = Inr wordTokyo"
    using wordTokyo_ok by (simp add: encodeURIComponent_def)
  have 1: "lookupWholeWord svcExact wordTokyo (freshData wordTokyo) =
     ((freshData wordTokyo)\<lparr>d_meaning := Some (ascii ''Tokyo'')\<rparr>, [(Inflected, wordTokyo)])"
    using hasMeaning_matchTokyo
    by (simp add: lookupWholeWord_def lookupTiers_def fetchMatches_def e svcExact_def
        inflectedTier_def nonEmptyMatches_def matchTokyo_def)
  have "tierUsable svcExact Inflected wordTokyo"
    using hasMeaning_matchTokyo by (simp add: tierUsable_def svcExact_def nonEmptyMatches_def)
  from lookup_tier1_usable [OF wordTokyo_ok this]
  have 2: "snd (lookupWholeWord svcExact wordTokyo
            (fst (lookupWholeWord svcExact wordTokyo (freshData wordTokyo)))) =
       [(Inflected, wordTokyo)]"
    by (metis snd_conv)
  from 1 2 show ?thesis by blast
qed

text \<open>
  C8, amended. \<open>getWordMeaning\<close> consults the cache before its only request, the direct
  search: a cached word is answered from the cache with no request. After an ok response
  it stores the first match, or null when there is none, and a later call for the word
  returns that value with no request, whatever the service would answer. A word that
  cannot be encoded, a failure or a response that is not ok returns null and leaves the
  cache as it was. \<open>lookupWholeWord\<close> uses no cache: on every encodable word it issues
  the inflected request first.
\<close>

theorem getWordMeaning_cache:
  "(cache word = Some v \<longrightarrow> getWordMeaning svc cache word = (v, cache, []))
   \<and> (cache word = None \<and> wellFormed word \<and> svc (Direct, word) = Response True (Json matches) \<longrightarrow>
        (\<exists>r. r = (case nonEmptyMatches matches of [] \<Rightarrow> None | first # others \<Rightarrow> Some first)
           \<and> getWordMeaning svc cache word = (r, cache(word \<mapsto> r), [(Direct, word)])
           \<and> getWordMeaning svc' (cache(word \<mapsto> r)) word = (r, cache(word \<mapsto> r), [])))
   \<and> (cache word = None
        \<and> (\<not> wellFormed word \<or> tierFails svc Direct word \<or> svc (Direct, word) = Response False b) \<longrightarrow>
        fst (getWordMeaning svc cache word) = None
        \<and> fst (snd (getWordMeaning svc cache word)) = cache)
   \<and> (wellFormed word \<longrightarrow>
        (\<exists>rest. snd (lookupWholeWord svc word d) = (Inflected, word) # rest))"
proof (intro conjI impI)
  show "getWordMeaning svc cache word = (v, cache, [])" if "cache word = Some v"
    using that by (simp add: getWordMeaning_def)
  show "\<exists>r. r = (case nonEmptyMatches matches of [] \<Rightarrow> None | first # others \<Rightarrow> Some first)
           \<and> getWordMeaning svc cache word = (r, cache(word \<mapsto> r), [(Direct, word)])
           \<and> getWordMeaning svc' (cache(word \<mapsto> r)) word = (r, cache(word \<mapsto> r), [])"
    if "cache word = None \<and> wellFormed word \<and> svc (Direct, word) = Response True (Json matches)"
    using that
    by (cases "nonEmptyMatches matches") (simp_all add: getWordMeaning_def fetchMatches_cases)
  show "fst (getWordMeaning svc cache word) = None"
    if "cache word = None
        \<and> (\<not> wellFormed word \<or> tierFails svc Direct word \<or> svc (Direct, word) = Response False b)"
    using that
    by (cases "wellFormed word")
      (auto simp: getWordMeaning_def fetchMatches_cases fetchMatches_illFormed tierFails_def
        split: fetch_result.splits body.splits)
  show "fst (snd (getWordMeaning svc cache word)) = cache"
    if "cache word = None
        \<and> (\<not> wellFormed word \<or> tierFails svc Direct word \<or> svc (Direct, word) = Response False b)"
    using that
    by (cases "wellFormed word")
      (auto simp: getWordMeaning_def fetchMatches_cases fetchMatches_illFormed tierFails_def
        split: fetch_result.splits body.splits)
  show "\<exists>rest. snd (lookupWholeWord svc word d) = (Inflected, word) # rest" if "wellFormed word"
    using that by (rule lookupWholeWord_first_request)
qed

theorem getWordMeaning_cache_witness:
  "getWordMeaning svcExact Map.empty wordTokyo =
     (Some matchTokyo, [wordTokyo \<mapsto> Some matchTokyo], [(Direct, wordTokyo)])
   \<and> getWordMeaning svcNotOk [wordTokyo \<mapsto> Some matchTokyo] wordTokyo =
     (Some matchTokyo, [wordTokyo \<mapsto> Some matchTokyo], [])
   \<and> fst (getWordMeaning svcNotOk Map.empty wordTokyo) = None
   \<and> fst (snd (getWordMeaning svcNotOk Map.empty wordTokyo)) = Map.empty"
proof -
  have s: "svcExact (Direct, wordTokyo) = Response True (Json (Some [matchTokyo]))"
    by (simp add: svcExact_def)
  have c: "(Map.empty :: cache) wordTokyo = None" by simp
  from getWordMeaning_cache [of Map.empty wordTokyo _ svcExact "Some [matchTokyo]" svcNotOk]
    s c wordTokyo_ok
  have 1: "getWordMeaning svcExact Map.empty wordTokyo =
     (Some matchTokyo, [wordTokyo \<mapsto> Some matchTokyo], [(Direct, wordTokyo)])"
    and 2: "getWordMeaning svcNotOk [wordTokyo \<mapsto> Some matchTokyo] wordTokyo =
     (Some matchTokyo, [wordTokyo \<mapsto> Some matchTokyo], [])"
    by (simp_all add: nonEmptyMatches_def)
  have "svcNotOk (Direct, wordTokyo) = Response False Malformed" by (simp add: svcNotOk_def)
  with getWordMeaning_cache [of Map.empty wordTokyo _ svcNotOk _ _ Malformed] c
  have 3: "fst (getWordMeaning svcNotOk Map.empty wordTokyo) = None
   \<and> fst (snd (getWordMeaning svcNotOk Map.empty wordTokyo)) = Map.empty"
    by blast
  from 1 2 3 show ?thesis by blast
qed

section \<open>Properties of the compositor\<close>

lemma highlightLeaf_no_words: "highlightLeaf [] t position = None"
  by (simp add: highlightLeaf_def sortBy_def)

lemma replace_all_None:
  "(\<forall>r \<in> set rs. r = None) \<Longrightarrow>
     fst (replaceNode n rs) = [n] \<and> (\<forall>r \<in> set (snd (replaceNode n rs)). r = None)"
  "(\<forall>r \<in> set rs. r = None) \<Longrightarrow>
     fst (replaceNodes ns rs) = ns \<and> (\<forall>r \<in> set (snd (replaceNodes ns rs)). r = None)"
proof (induction n rs and ns rs rule: replaceNode_replaceNodes.induct)
  case (1 s rs)
  then show ?case by (cases rs) auto
next
  case (2 tag attrs children rs)
  then show ?case by (auto split: prod.splits)
next
  case (3 rs)
  then show ?case by simp
next
  case (4 n ns rs)
  from 4(1) [OF 4(3)] have a: "fst (replaceNode n rs) = [n]"
    "\<forall>r \<in> set (snd (replaceNode n rs)). r = None" by simp_all
  obtain x rs1 where r1: "replaceNode n rs = (x, rs1)" by (cases "replaceNode n rs")
  with a have x: "x = [n]" and n1: "\<forall>r \<in> set rs1. r = None" by simp_all
  from 4(2) [OF r1 [symmetric] n1] r1 x show ?case
    by (auto split: prod.splits)
qed

lemma applyHighlighting_no_words: "applyHighlighting children [] originalText = children"
proof -
  have "\<forall>r \<in> set (map2 (highlightLeaf []) ts ps). r = None" for ts ps
    by (auto simp: highlightLeaf_no_words dest: in_set_zipE)
  then show ?thesis
    by (simp add: applyHighlighting_def Let_def replace_all_None(2) del: replaceNodes.simps)
qed

lemma processNode_no_words: "processNode n [] = [n]"
proof (induction n)
  case (Text t)
  then show ?case by (simp add: sortBy_def)
next
  case (Element tag attrs children)
  then have "concat (map (\<lambda>child. processNode child []) children) = children"
    by (induction children) auto
  then show ?case by simp
qed


lemma search_sound:
  "search s w k \<noteq> - 1 \<Longrightarrow> \<exists>j \<le> length s. search s w k = int (k + j) \<and> startsWith (drop j s) w"
proof (induction s arbitrary: k)
  case Nil
  then show ?case by (auto simp: startsWith_def split: if_splits)
next
  case (Cons c cs)
  show ?case
  proof (cases "startsWith (c # cs) w")
    case True
    then have "search (c # cs) w k = int (k + 0) \<and> startsWith (drop 0 (c # cs)) w" by simp
    then show ?thesis by blast
  next
    case False
    with Cons.prems have "search cs w (Suc k) \<noteq> - 1" by simp
    from Cons.IH [OF this] obtain j where "j \<le> length cs"
      "search cs w (Suc k) = int (Suc k + j)" "startsWith (drop j cs) w" by blast
    with False have "Suc j \<le> length (c # cs) \<and> search (c # cs) w k = int (k + Suc j)
        \<and> startsWith (drop (Suc j) (c # cs)) w" by simp
    then show ?thesis by blast
  qed
qed

lemma indexOf_sound:
  assumes "indexOf s w fromIndex \<noteq> - 1"
  shows "\<exists>p. indexOf s w fromIndex = int p \<and> p \<le> length s \<and> take (length w) (drop p s) = w
           \<and> min (max fromIndex 0) (int (length s)) \<le> int p"
proof -
  define k where "k = nat (min (max fromIndex 0) (int (length s)))"
  have kl: "k \<le> length s" unfolding k_def by linarith
  have ki: "int k = min (max fromIndex 0) (int (length s))" unfolding k_def by linarith
  from assms have "search (drop k s) w k \<noteq> - 1" by (simp add: indexOf_def Let_def k_def)
  from search_sound [OF this] obtain j where j: "j \<le> length (drop k s)"
    "search (drop k s) w k = int (k + j)" "startsWith (drop j (drop k s)) w" by blast
  then have "indexOf s w fromIndex = int (k + j)" by (simp add: indexOf_def Let_def k_def)
  moreover from j kl have "k + j \<le> length s" by simp
  moreover from j have "take (length w) (drop (k + j) s) = w"
    by (simp add: startsWith_def add.commute)
  moreover from ki have "min (max fromIndex 0) (int (length s)) \<le> int (k + j)" by simp
  ultimately show ?thesis by blast
qed

lemma class_names_differ: "ascii ''kanji-word'' \<noteq> ascii ''kanji-popup''"
  by (simp add: ascii_def)

lemma baseText_popupSpan: "baseText (popupSpan d) = []"
  by (simp add: popupSpan_def isPopup_def)

lemma baseText_wordSpan: "baseText (wordSpan w d) = w"
  by (simp add: wordSpan_def isPopup_def class_names_differ textChildren_def baseText_popupSpan)

lemma substring_in_range:
  "0 \<le> a \<Longrightarrow> a \<le> b \<Longrightarrow> b \<le> int (length s) \<Longrightarrow>
     substring s a b = take (nat b - nat a) (drop (nat a) s)"
  by (simp add: substring_def Let_def min_def max_def nat_diff_distrib)

lemma take_extend:
  "a \<le> p \<Longrightarrow> take a s @ take (p - a) (drop a s) = take p s"
  using take_add [of a "p - a" s] by simp

lemma wrapWords_base:
  assumes "0 \<le> lastIndex" "lastIndex \<le> int (length t)"
    "concat (map baseText fragments) = take (nat lastIndex) t"
  shows "\<exists>fr li. wrapWords t ws fragments lastIndex processed = (fr, li)
           \<and> 0 \<le> li \<and> li \<le> int (length t) \<and> concat (map baseText fr) = take (nat li) t"
  using assms
proof (induction ws arbitrary: fragments lastIndex processed)
  case Nil
  then show ?case by simp
next
  case (Cons w ws)
  let ?pos = "indexOf t (wo_word w) lastIndex"
  let ?len = "int (length (wo_word w))"
  show ?case
  proof (cases "?pos = - 1 \<or> isRangeProcessed ?pos (?pos + ?len) processed")
    case True
    with Cons.IH [OF Cons.prems, of processed] show ?thesis by (simp add: Let_def)
  next
    case False
    then have "?pos \<noteq> - 1" by simp
    from indexOf_sound [OF this] obtain p where p: "?pos = int p" "p \<le> length t"
      "take (length (wo_word w)) (drop p t) = wo_word w"
      "min (max lastIndex 0) (int (length t)) \<le> int p" by blast
    from p(4) Cons.prems(1,2) have lp: "lastIndex \<le> int p" by linarith
    then have nlp: "nat lastIndex \<le> p" by linarith
    have "length (take (length (wo_word w)) (drop p t)) = min (length (wo_word w)) (length t - p)"
      by simp
    with p(3) have "length (wo_word w) = min (length (wo_word w)) (length t - p)"
      by simp
    with p(2) have fit: "p + length (wo_word w) \<le> length t" by linarith
    let ?fr = "fragments
           @ (if ?pos > lastIndex then [Text (substring t lastIndex ?pos)] else [])
           @ [wordSpan (wo_word w) (wo_data w)]"
    have before: "concat (map baseText (if ?pos > lastIndex then [Text (substring t lastIndex ?pos)] else []))
        = take (p - nat lastIndex) (drop (nat lastIndex) t)"
    proof (cases "?pos > lastIndex")
      case True
      with p(1,2) Cons.prems(1) lp show ?thesis
        by (simp add: substring_in_range)
    next
      case False
      with p(1) lp have "p = nat lastIndex" by linarith
      with False show ?thesis by simp
    qed
    have "concat (map baseText ?fr) =
        take (nat lastIndex) t @ take (p - nat lastIndex) (drop (nat lastIndex) t) @ wo_word w"
      using Cons.prems(3) before by (simp add: baseText_wordSpan del: baseText.simps)
    also have "\<dots> = take p t @ take (length (wo_word w)) (drop p t)"
      using take_extend [OF nlp, of t] p(3) by simp
    also have "\<dots> = take (p + length (wo_word w)) t" by (simp add: take_add)
    finally have base: "concat (map baseText ?fr) = take (nat (?pos + ?len)) t"
      using p(1) by (simp add: nat_add_distrib)
    have r: "0 \<le> ?pos + ?len" "?pos + ?len \<le> int (length t)"
      using p(1) fit by simp_all
    from Cons.IH [OF r base, of "markRangeProcessed ?pos (?pos + ?len) processed"] False
    show ?thesis by (simp add: Let_def)
  qed
qed

lemma processNode_text_base:
  "concat (map baseText (processNode (Text t) kanjiWords)) = t"
proof (cases "t = [] \<or> trim t = []")
  case True
  then show ?thesis by auto
next
  case False
  define rel where "rel = sortBy (byFirstMatchThenLonger t)
      (filter (\<lambda>kw. includesStr t (wo_word kw)) kanjiWords)"
  show ?thesis
  proof (cases "rel = []")
    case True
    with False show ?thesis by (simp add: rel_def [symmetric] Let_def)
  next
    case rel: False
    have "concat (map baseText []) = take (nat 0) t" by simp
    from wrapWords_base [OF _ _ this, of rel "{}"] obtain fr li
      where w: "wrapWords t rel [] 0 {} = (fr, li)" and li: "0 \<le> li" "li \<le> int (length t)"
        and base: "concat (map baseText fr) = take (nat li) t"
      by auto
    show ?thesis
    proof (cases "li < int (length t)")
      case True
      with li have "substring t li (int (length t)) = drop (nat li) t"
        by (simp add: substring_in_range)
      with False rel w True base show ?thesis
        by (simp add: rel_def [symmetric] Let_def)
    next
      case nl: False
      with li have "nat li = length t" by linarith
      with False rel w nl base show ?thesis
        by (simp add: rel_def [symmetric] Let_def)
    qed
  qed
qed

lemma processNode_baseText:
  "concat (map baseText (processNode n kanjiWords)) = baseText n"
proof (induction n)
  case (Text t)
  show ?case using processNode_text_base [of t kanjiWords] by simp
next
  case (Element tag attrs children)
  have c: "concat (map baseText (concat (map (\<lambda>child. processNode child kanjiWords) children)))
      = concat (map baseText children)"
    using Element.IH by (induction children) auto
  show ?case
  proof (cases "tag = ''rt''")
    case True
    then show ?thesis by simp
  next
    case nrt: False
    show ?thesis
    proof (cases "tag = ''ruby''")
      case True
      then show ?thesis
        by (simp add: isPopup_def class_names_differ baseText_popupSpan split: option.splits)
    next
      case False
      with nrt c show ?thesis by simp
    qed
  qed
qed

lemma showAllWords_baseText:
  "concat (map baseText (showAllWords allWords display)) = concat (map baseText display)"
proof (cases "allWords = []")
  case True
  then show ?thesis by (simp add: showAllWords_def)
next
  case False
  have "isPopup [] = False" by (simp add: isPopup_def)
  then have "baseText (Element ''div'' [] display) = concat (map baseText display)" by simp
  with False show ?thesis
    by (simp add: showAllWords_def processTextNodesForKanji_def processNode_baseText
        del: processNode.simps baseText.simps)
qed

lemma processNode_longer_word_only:
  "processNode (Text textTokyoTo)
     [makeWordObj \<lparr>sw_word = [0x6771, 0x4EAC, 0x90FD], sw_reading = [], sw_pos = noun\<rparr> 0,
      makeWordObj \<lparr>sw_word = [0x6771, 0x4EAC], sw_reading = [], sw_pos = noun\<rparr> 0]
   = [wordSpan [0x6771, 0x4EAC, 0x90FD]
        (Some \<lparr>d_word = Some [0x6771, 0x4EAC, 0x90FD], d_hiragana = Some [], d_meaning = None\<rparr>)]"
  by code_simp

text \<open>
  C4. In a composited tree no two words' wrapped ranges should overlap: of two words that
  start at the same place, the longer is wrapped and the range of the shorter is not
  wrapped on its own. \<open>processNode\<close> wraps a word only where it is found from
  \<open>lastIndex\<close> on, so in a text node no range is wrapped twice (\<open>processNode_baseText\<close>), and of two words
  that start at the same place only the longer is wrapped
  (\<open>processNode_longer_word_only\<close>). \<open>applyHighlighting\<close> has no such guard. For
  the subtitle U+6771 U+4EAC U+90FD and the tokens U+6771 U+4EAC U+90FD and U+6771 U+4EAC,
  the aligner places both words at position 0 and \<open>applyHighlighting\<close> wraps the
  longer word and then wraps the range of the shorter one again. For the subtitle
  U+98DF U+3079 U+308B U+3082 U+306E the two words are disjoint, at positions 0 and 3, and
  still the two wrappers of the second text node both cover U+3082.
\<close>

theorem applyHighlighting_wraps_both:
  "alignWords textTokyoTo (segmentWords tokensTokyoTo) 0 [] =
     [makeWordObj \<lparr>sw_word = [0x6771, 0x4EAC, 0x90FD], sw_reading = [], sw_pos = noun\<rparr> 0,
      makeWordObj \<lparr>sw_word = [0x6771, 0x4EAC], sw_reading = [], sw_pos = noun\<rparr> 0]
   \<and> enhanceWithKanjiPopups (Some tokensTokyoTo) svcNotOk rubyTokyoTo textTokyoTo rubyTokyoTo =
     [Element ''ruby'' []
        [wordSpan [0x6771, 0x4EAC, 0x90FD] (unresolvedData [0x6771, 0x4EAC, 0x90FD]),
         wordSpan [0x6771, 0x4EAC] (unresolvedData [0x6771, 0x4EAC]),
         Text [0x90FD],
         Element ''rp'' [] [Text (ascii ''('')],
         Element ''rt'' [] [Text [0x3068, 0x3046, 0x304D, 0x3087, 0x3046, 0x3068]],
         Element ''rp'' [] [Text (ascii '')'')]]]
   \<and> map (\<lambda>w. (wo_word w, wo_position w, wo_length w))
       (alignWords textTaberu (segmentWords tokensTaberu) 0 [])
      = [([0x98DF, 0x3079, 0x308B], 0, 3), ([0x3082, 0x306E], 3, 2)]
   \<and> enhanceWithKanjiPopups (Some tokensTaberu) svcNotOk rubyTaberu textTaberu rubyTaberu =
     [Element ''ruby'' []
        [wordSpan [0x98DF] (unresolvedData [0x98DF, 0x3079, 0x308B]),
         Element ''rp'' [] [Text (ascii ''('')],
         Element ''rt'' [] [Text [0x305F]],
         Element ''rp'' [] [Text (ascii '')'')]],
      wordSpan [0x3079, 0x308B, 0x3082] (unresolvedData [0x98DF, 0x3079, 0x308B]),
      wordSpan [0x3082, 0x306E] (unresolvedData [0x3082, 0x306E])]"
  by code_simp

text \<open>
  C5. The text fragments of a composited tree, wrappers looked through and popups and
  readings left out, should concatenate to the original subtitle text, no character
  dropped, duplicated or moved. \<open>processNode\<close> keeps the text of every tree
  (\<open>processNode_baseText\<close>).
  \<open>applyHighlighting\<close> does not: a word that begins before a text node is wrapped
  with its whole length from the start of the node, not with what is left of it, and the
  next word is wrapped without regard to \<open>lastIndex\<close>. For the subtitle
  U+98DF U+3079 U+308B U+3082 U+306E, a verb of three units and a noun of two, the
  composited tree shows U+3082 twice.
\<close>

theorem applyHighlighting_duplicates_text:
  "concat (map baseText rubyTaberu) = textTaberu
   \<and> concat (map baseText
        (enhanceWithKanjiPopups (Some tokensTaberu) svcNotOk rubyTaberu textTaberu rubyTaberu))
      = [0x98DF, 0x3079, 0x308B, 0x3082, 0x3082, 0x306E]
   \<and> concat (map baseText
        (enhanceWithKanjiPopups (Some tokensTaberu) svcNotOk rubyTaberu textTaberu rubyTaberu))
      \<noteq> textTaberu"
  by code_simp

text \<open>
  C9. With no word, compositing returns the tree it was given, and so the same rendered
  text: \<open>applyHighlighting\<close> and \<open>processNode\<close> with the empty word list, and
  \<open>enhanceWithKanjiPopups\<close> when no word is aligned (no analysis, no token of a kept
  part of speech, no token found in the text), which leaves the display as it is, as does
  the end of the other \<open>enhanceWithKanjiPopups\<close> when \<open>allWords\<close> is empty.
\<close>

theorem compositing_without_words:
  "applyHighlighting children [] originalText = children
   \<and> processNode n [] = [n]
   \<and> concat (map textContent (applyHighlighting children [] originalText))
       = concat (map textContent children)
   \<and> concat (map textContent (processNode n [])) = textContent n
   \<and> (alignWords originalText
         (case analysis of None \<Rightarrow> [] | Some tokens \<Rightarrow> segmentWords tokens) 0 [] = [] \<longrightarrow>
       enhanceWithKanjiPopups analysis svc formatted originalText display = display)
   \<and> enhanceWithKanjiPopups None svc formatted originalText display = display
   \<and> showAllWords [] display = display"
proof (intro conjI impI)
  show "showAllWords [] display = display"
    by (simp add: showAllWords_def)
  show "applyHighlighting children [] originalText = children"
    by (rule applyHighlighting_no_words)
  show "processNode n [] = [n]"
    by (rule processNode_no_words)
  show "concat (map textContent (applyHighlighting children [] originalText))
       = concat (map textContent children)"
    by (simp only: applyHighlighting_no_words)
  show "concat (map textContent (processNode n [])) = textContent n"
    by (simp only: processNode_no_words) simp
  show "enhanceWithKanjiPopups analysis svc formatted originalText display = display"
    if "alignWords originalText
         (case analysis of None \<Rightarrow> [] | Some tokens \<Rightarrow> segmentWords tokens) 0 [] = []"
    using that by (simp add: enhanceWithKanjiPopups_def)
  show "enhanceWithKanjiPopups None svc formatted originalText display = display"
    by (simp add: enhanceWithKanjiPopups_def)
qed

theorem compositing_without_words_witness:
  "enhanceWithKanjiPopups (Some tokensParticle) svcExact rubyTaberu textTaberu rubyTaberu = rubyTaberu
   \<and> enhanceWithKanjiPopups (Some tokensTokyoTo) svcExact rubyTaberu textTaberu rubyTaberu = rubyTaberu"
proof -
  have "alignWords textTaberu
         (case Some tokensParticle of None \<Rightarrow> [] | Some tokens \<Rightarrow> segmentWords tokens) 0 [] = []"
    by (simp add: segmentWords_def tokensParticle_def targetPos_def)
  then have 1: "enhanceWithKanjiPopups (Some tokensParticle) svcExact rubyTaberu textTaberu rubyTaberu
      = rubyTaberu"
    using compositing_without_words [where originalText = textTaberu and analysis = "Some tokensParticle"
        and svc = svcExact and formatted = rubyTaberu and display = rubyTaberu]
    by blast
  have "alignWords textTaberu
         (case Some tokensTokyoTo of None \<Rightarrow> [] | Some tokens \<Rightarrow> segmentWords tokens) 0 [] = []"
    by code_simp
  then have 2: "enhanceWithKanjiPopups (Some tokensTokyoTo) svcExact rubyTaberu textTaberu rubyTaberu
      = rubyTaberu"
    using compositing_without_words [where originalText = textTaberu and analysis = "Some tokensTokyoTo"
        and svc = svcExact and formatted = rubyTaberu and display = rubyTaberu]
    by blast
  from 1 2 show ?thesis by blast
qed

end
